theory Spec2Isabelle
  imports Complex_Main
begin

section \<open>Python values and exceptions\<close>

text \<open>
  The two decode scripts, \<^verbatim>\<open>scripts/tokenid_debug3.py\<close> and
  \<^verbatim>\<open>scripts/tokenid_debug4.py\<close>, are embedded as HOL functions. Token IDs are
  Python integers (\<^typ>\<open>int\<close>), the vocabulary is a list of strings, and every
  exception a statement of the scripts can raise is a value of \<open>error\<close>, returned
  as \<open>Inl\<close>.
\<close>

datatype error =
    IndexError
  | KeyError
  | ValueError
  | FileNotFoundError
  | ExternalError

text \<open>
  Subscription \<^verbatim>\<open>xs[i]\<close> of a Python list: a negative index counts from the end,
  an index outside the list raises \<open>IndexError\<close>.
\<close>

definition py_getitem :: "'a list \<Rightarrow> int \<Rightarrow> error + 'a" where
  "py_getitem xs i =
     (if 0 \<le> i \<and> i < int (length xs) then Inr (xs ! nat i)
      else if i < 0 \<and> - int (length xs) \<le> i then Inr (xs ! nat (int (length xs) + i))
      else Inl IndexError)"

text \<open>
  The text of an integer inside an f-string, \<^verbatim>\<open>f"{t}"\<close>: decimal digits, most
  significant first, with a leading minus sign for a negative number.
\<close>

definition digit_char :: "nat \<Rightarrow> char" where
  "digit_char d = ''0123456789'' ! d"

fun str_nat :: "nat \<Rightarrow> string" where
  "str_nat n = (if n < 10 then [digit_char n] else str_nat (n div 10) @ [digit_char (n mod 10)])"

declare str_nat.simps [simp del]

definition str_int :: "int \<Rightarrow> string" where
  "str_int i = (if i < 0 then ''-'' @ str_nat (nat (- i)) else str_nat (nat i))"

section \<open>Decoding a token sequence to text\<close>

text \<open>
  \<^verbatim>\<open>decode_tokens(tokens, vocab)\<close> is the same function in both scripts
  (tokenid_debug3.py lines 15-25, tokenid_debug4.py lines 39-49). The dictionary
  \<^verbatim>\<open>special_ids\<close> is kept as the association list of its four entries, and
  \<^verbatim>\<open>t in special_ids\<close> is membership among the keys.
\<close>

definition special_ids :: "(int \<times> string) list" where
  "special_ids = [(0, ''[PAD]''), (1, ''[UNK]''), (2, ''[CLS]''), (3, ''[SEP]'')]"

definition in_dict :: "'k \<Rightarrow> ('k \<times> 'v) list \<Rightarrow> bool" where
  "in_dict k d = (map_of d k \<noteq> None)"

text \<open>
  The \<^verbatim>\<open>for t in tokens\<close> loop, with the list \<^verbatim>\<open>decoded\<close> as accumulator.
  The read \<^verbatim>\<open>vocab[t]\<close> goes through \<open>py_getitem\<close>, so that a raise of the
  subscription would be a result \<open>Inl\<close> of the loop.
\<close>

fun decode_tokens_loop :: "int list \<Rightarrow> string list \<Rightarrow> string list \<Rightarrow> error + string list" where
  "decode_tokens_loop [] vocab decoded = Inr decoded"
| "decode_tokens_loop (t # ts) vocab decoded =
     (if in_dict t special_ids then decode_tokens_loop ts vocab decoded
      else if 0 \<le> t \<and> t < int (length vocab) then
        (case py_getitem vocab t of
           Inl e \<Rightarrow> Inl e
         | Inr s \<Rightarrow> decode_tokens_loop ts vocab (decoded @ [s]))
      else decode_tokens_loop ts vocab (decoded @ [''<UNK'' @ str_int t @ ''>'']))"

definition decode_tokens :: "int list \<Rightarrow> string list \<Rightarrow> error + string" where
  "decode_tokens tokens vocab =
     (case decode_tokens_loop tokens vocab [] of
        Inl e \<Rightarrow> Inl e
      | Inr decoded \<Rightarrow> Inr (concat decoded))"

text \<open>
  The same loop, listing the indices at which it evaluates \<^verbatim>\<open>vocab[t]\<close>, in
  the order of evaluation.
\<close>

fun vocab_reads :: "int list \<Rightarrow> string list \<Rightarrow> int list" where
  "vocab_reads [] vocab = []"
| "vocab_reads (t # ts) vocab =
     (if in_dict t special_ids then vocab_reads ts vocab
      else if 0 \<le> t \<and> t < int (length vocab) then t # vocab_reads ts vocab
      else vocab_reads ts vocab)"


section \<open>Float32 values\<close>

text \<open>
  The scores are floating-point numbers. A value is a real number, an infinity or
  NaN; a float32 value is one that \<open>round32\<close> leaves unchanged. Zero carries no
  sign: the two zeros of IEEE 754 compare equal and give the same results in every
  operation used here, but for a division by zero, where the divisor is taken as +0.

  The order on these values is the one \<^verbatim>\<open>np.max\<close> and \<^verbatim>\<open>np.argmax\<close> follow:
  the usual order of the extended reals, with NaN above everything (a NaN in the
  array is the maximum, and the first NaN is its arg-max).
\<close>

datatype fp = NInf | Finite real | PInf | NaN

fun fp_rank :: "fp \<Rightarrow> nat" where
  "fp_rank NInf = 0"
| "fp_rank (Finite x) = 1"
| "fp_rank PInf = 2"
| "fp_rank NaN = 3"

fun fp_value :: "fp \<Rightarrow> real" where
  "fp_value (Finite x) = x"
| "fp_value NInf = 0"
| "fp_value PInf = 0"
| "fp_value NaN = 0"

fun is_finite :: "fp \<Rightarrow> bool" where
  "is_finite (Finite x) = True"
| "is_finite NInf = False"
| "is_finite PInf = False"
| "is_finite NaN = False"

instantiation fp :: "{zero, linorder}"
begin

definition zero_fp :: fp where
  "zero_fp = Finite 0"

definition less_eq_fp :: "fp \<Rightarrow> fp \<Rightarrow> bool" where
  "less_eq_fp a b =
     (fp_rank a < fp_rank b \<or> (fp_rank a = fp_rank b \<and> fp_value a \<le> fp_value b))"

definition less_fp :: "fp \<Rightarrow> fp \<Rightarrow> bool" where
  "less_fp a b =
     (fp_rank a < fp_rank b \<or> (fp_rank a = fp_rank b \<and> fp_value a < fp_value b))"

instance
proof
  fix x y z :: fp
  show "(x < y) = (x \<le> y \<and> \<not> y \<le> x)"
    by (auto simp: less_fp_def less_eq_fp_def)
  show "x \<le> x"
    by (simp add: less_eq_fp_def)
  show "x \<le> y \<Longrightarrow> y \<le> z \<Longrightarrow> x \<le> z"
    by (auto simp: less_eq_fp_def)
  show "x \<le> y \<Longrightarrow> y \<le> x \<Longrightarrow> x = y"
    by (cases x; cases y) (auto simp: less_eq_fp_def)
  show "x \<le> y \<or> y \<le> x"
    by (auto simp: less_eq_fp_def)
qed

end

text \<open>
  Rounding of a real number to float32, to nearest with ties to even (IEEE 754
  binary32: 24 significant bits, exponents of the unit in the last place from -149
  to 104). The nonzero number \<open>x\<close> lies in the binade \<open>[2^k, 2^(k+1))\<close> with
  \<open>k = \<lfloor>log 2 \<bar>x\<bar>\<rfloor>\<close>; there the float32 values are the multiples of
  \<open>2^(k-23)\<close>, and of \<open>2^(-149)\<close> below the smallest normal number. A magnitude that
  rounds to \<open>2^128\<close> or more overflows to an infinity.
\<close>

definition round_half_even :: "real \<Rightarrow> int" where
  "round_half_even y =
     (if y - of_int \<lfloor>y\<rfloor> < 1 / 2 then \<lfloor>y\<rfloor>
      else if 1 / 2 < y - of_int \<lfloor>y\<rfloor> then \<lfloor>y\<rfloor> + 1
      else if even \<lfloor>y\<rfloor> then \<lfloor>y\<rfloor> else \<lfloor>y\<rfloor> + 1)"

definition ulp_exponent :: "real \<Rightarrow> int" where
  "ulp_exponent x = max (\<lfloor>log 2 \<bar>x\<bar>\<rfloor> - 23) (- 149)"

definition round_magnitude :: "real \<Rightarrow> real" where
  "round_magnitude x =
     of_int (round_half_even (\<bar>x\<bar> / 2 powr of_int (ulp_exponent x))) *
     2 powr of_int (ulp_exponent x)"

definition round32 :: "real \<Rightarrow> fp" where
  "round32 x =
     (if x = 0 then Finite 0
      else if 2 ^ 128 \<le> round_magnitude x then (if 0 < x then PInf else NInf)
      else if 0 < x then Finite (round_magnitude x)
      else Finite (- round_magnitude x))"

text \<open>
  The float32 operations of tokenid_debug4.py: conversion to float32
  (\<^verbatim>\<open>dtype=np.float32\<close>), subtraction, \<^verbatim>\<open>np.exp\<close>, addition and division. Each
  is the exact result rounded to float32, with the IEEE 754 rules for infinities and
  NaN. \<^verbatim>\<open>np.exp\<close> is taken as correctly rounded.
\<close>

fun to_float32 :: "fp \<Rightarrow> fp" where
  "to_float32 (Finite x) = round32 x"
| "to_float32 NInf = NInf"
| "to_float32 PInf = PInf"
| "to_float32 NaN = NaN"

fun sub32 :: "fp \<Rightarrow> fp \<Rightarrow> fp" where
  "sub32 (Finite x) (Finite y) = round32 (x - y)"
| "sub32 NaN b = NaN"
| "sub32 a NaN = NaN"
| "sub32 PInf PInf = NaN"
| "sub32 NInf NInf = NaN"
| "sub32 PInf b = PInf"
| "sub32 NInf b = NInf"
| "sub32 (Finite x) PInf = NInf"
| "sub32 (Finite x) NInf = PInf"

fun add32 :: "fp \<Rightarrow> fp \<Rightarrow> fp" where
  "add32 (Finite x) (Finite y) = round32 (x + y)"
| "add32 NaN b = NaN"
| "add32 a NaN = NaN"
| "add32 PInf NInf = NaN"
| "add32 NInf PInf = NaN"
| "add32 PInf b = PInf"
| "add32 NInf b = NInf"
| "add32 (Finite x) PInf = PInf"
| "add32 (Finite x) NInf = NInf"

fun div32 :: "fp \<Rightarrow> fp \<Rightarrow> fp" where
  "div32 (Finite x) (Finite y) =
     (if y = 0 then (if x = 0 then NaN else if 0 < x then PInf else NInf)
      else round32 (x / y))"
| "div32 NaN b = NaN"
| "div32 a NaN = NaN"
| "div32 (Finite x) b = Finite 0"
| "div32 a (Finite y) = (if (a = PInf) = (0 \<le> y) then PInf else NInf)"
| "div32 a b = NaN"

fun exp32 :: "fp \<Rightarrow> fp" where
  "exp32 (Finite x) = round32 (exp x)"
| "exp32 NInf = Finite 0"
| "exp32 PInf = PInf"
| "exp32 NaN = NaN"

text \<open>The float32 values between 0 and 1, where the probabilities lie.\<close>

definition unit_fp :: "fp \<Rightarrow> bool" where
  "unit_fp a = (Finite 0 \<le> a \<and> a \<le> Finite 1)"

section \<open>Selecting the next token\<close>

text \<open>
  \<^verbatim>\<open>np.argmax\<close> over a one-dimensional array, written as the left-to-right scan
  it is: the running best is replaced only by a strictly greater entry, so the first
  occurrence of the maximum wins; an empty array raises \<open>ValueError\<close>. Scores are
  elements of a linear order: the order of the scores is all the scan uses. On
  float32 values it is the order of \<open>fp\<close>, in which NaN is the greatest element.
\<close>

fun argmax_scan :: "'a::linorder list \<Rightarrow> nat \<Rightarrow> 'a \<Rightarrow> nat \<Rightarrow> nat" where
  "argmax_scan [] i best best_i = best_i"
| "argmax_scan (x # xs) i best best_i =
     (if best < x then argmax_scan xs (Suc i) x i
      else argmax_scan xs (Suc i) best best_i)"

definition np_argmax :: "'a::linorder list \<Rightarrow> error + nat" where
  "np_argmax xs = (case xs of [] \<Rightarrow> Inl ValueError | x # rest \<Rightarrow> Inr (argmax_scan rest 1 x 0))"

text \<open>
  The model's output tensors have shape (batch, position, vocabulary); a tensor is a
  list of matrices. \<^verbatim>\<open>logits[0, -1]\<close> is the last row of the first matrix and
  raises \<open>IndexError\<close> when there is no such row. The dictionary returned by
  \<^verbatim>\<open>mlmodel.predict\<close> is an association list in insertion order.
\<close>

type_synonym 'a tensor3 = "'a list list list"

definition last_position :: "'a tensor3 \<Rightarrow> error + 'a list" where
  "last_position logits =
     (case py_getitem logits 0 of
        Inl e \<Rightarrow> Inl e
      | Inr m \<Rightarrow> py_getitem m (- 1))"

definition dict_get :: "('k \<times> 'v) list \<Rightarrow> 'k \<Rightarrow> error + 'v" where
  "dict_get d k = (case map_of d k of None \<Rightarrow> Inl KeyError | Some v \<Rightarrow> Inr v)"

text \<open>
  The body of the loop of tokenid_debug3.py (lines 58-69): one inference call with
  the tokens so far, the image array and the recurrent state; the next token is the
  arg-max of the last logits row. The inference call is a parameter; it may raise.
\<close>

definition main_step ::
  "(int list list \<Rightarrow> 'x \<Rightarrow> 'a tensor3 \<Rightarrow> error + (string \<times> ('a::linorder) tensor3) list) \<Rightarrow>
   'x \<Rightarrow> int list \<Rightarrow> 'a tensor3 \<Rightarrow> error + (int \<times> 'a tensor3)" where
  "main_step predict arr tokens state =
     (case predict [tokens] arr state of
        Inl e \<Rightarrow> Inl e
      | Inr out \<Rightarrow>
         (case dict_get out ''logits'' of
            Inl e \<Rightarrow> Inl e
          | Inr logits \<Rightarrow>
             (case dict_get out ''state'' of
                Inl e \<Rightarrow> Inl e
              | Inr state' \<Rightarrow>
                 (case last_position logits of
                    Inl e \<Rightarrow> Inl e
                  | Inr row \<Rightarrow>
                     (case np_argmax row of
                        Inl e \<Rightarrow> Inl e
                      | Inr next_id \<Rightarrow> Inr (int next_id, state'))))))"

text \<open>
  Line 87 of tokenid_debug4.py, \<^verbatim>\<open>np.array(logits, dtype=np.float32)\<close>: every
  entry of the tensor is converted to float32; a tensor whose matrices or rows differ
  in length is no array and raises \<open>ValueError\<close>.
\<close>

definition rectangular :: "'a tensor3 \<Rightarrow> bool" where
  "rectangular t =
     (list_all (\<lambda>m. length m = length (hd t)) t \<and>
      list_all (\<lambda>m. list_all (\<lambda>r. length r = length (hd (hd t))) m) t)"

definition np_array_f32 :: "fp tensor3 \<Rightarrow> error + fp tensor3" where
  "np_array_f32 t =
     (if rectangular t then Inr (map (map (map to_float32)) t) else Inl ValueError)"

text \<open>
  Lines 91-92 of tokenid_debug4.py on the last logits row:
  \<^verbatim>\<open>probs = np.exp(last_logits - last_logits.max())\<close>, then
  \<^verbatim>\<open>probs = probs / probs.sum()\<close>. \<^verbatim>\<open>max()\<close> raises \<open>ValueError\<close> on an empty
  row and returns NaN when the row holds one. The sum adds the entries from left to
  right, starting from zero. numpy groups the additions in another way (pairwise),
  which changes a sum only through the rounding of its partial sums; on the rows
  evaluated below every partial sum is exact.
\<close>

definition np_max :: "'a::linorder list \<Rightarrow> error + 'a" where
  "np_max xs = (case xs of [] \<Rightarrow> Inl ValueError | x # rest \<Rightarrow> Inr (fold max rest x))"

definition np_sum :: "fp list \<Rightarrow> fp" where
  "np_sum xs = foldl add32 (Finite 0) xs"

definition softmax_f32 :: "fp list \<Rightarrow> error + fp list" where
  "softmax_f32 last_logits =
     (case np_max last_logits of
        Inl e \<Rightarrow> Inl e
      | Inr m \<Rightarrow>
          let probs = map (\<lambda>x. exp32 (sub32 x m)) last_logits
          in Inr (map (\<lambda>p. div32 p (np_sum probs)) probs))"

text \<open>
  The body of the loop of tokenid_debug4.py (lines 76-94). The logits are the entry
  \<^verbatim>\<open>"logits"\<close> of the output when there is one, its first value otherwise; they
  are converted to float32, and the chosen token is the arg-max of the probabilities
  computed from the last row.
\<close>

definition run_step ::
  "('x \<Rightarrow> int list list \<Rightarrow> error + (string \<times> fp tensor3) list) \<Rightarrow>
   'x \<Rightarrow> int list \<Rightarrow> error + int" where
  "run_step predict arr tokens =
     (case predict arr [tokens] of
        Inl e \<Rightarrow> Inl e
      | Inr out \<Rightarrow>
         (case (if in_dict ''logits'' out then dict_get out ''logits''
                else py_getitem (map snd out) 0) of
            Inl e \<Rightarrow> Inl e
          | Inr raw \<Rightarrow>
             (case np_array_f32 raw of
                Inl e \<Rightarrow> Inl e
              | Inr logits \<Rightarrow>
                 (case last_position logits of
                    Inl e \<Rightarrow> Inl e
                  | Inr last_logits \<Rightarrow>
                     (case softmax_f32 last_logits of
                        Inl e \<Rightarrow> Inl e
                      | Inr probs \<Rightarrow>
                         (case np_argmax probs of
                            Inl e \<Rightarrow> Inl e
                          | Inr chosen \<Rightarrow> Inr (int chosen)))))))"

section \<open>The greedy decode loop\<close>

definition BOS_ID :: int where "BOS_ID = 2"
definition EOS_ID :: int where "EOS_ID = 3"
definition MAX_LEN :: nat where "MAX_LEN = 32"

text \<open>
  Both scripts run the same loop around their body (tokenid_debug3.py lines 57-73,
  tokenid_debug4.py lines 75-98): \<^verbatim>\<open>for step in range(MAX_LEN)\<close>, append the
  selected token, \<^verbatim>\<open>break\<close> when it is the end marker. The first argument is the
  body, from the tokens and the loop-carried state to the selected token and the
  next state; the third is the number of iterations left. The result records how
  the loop was left: by \<^verbatim>\<open>break\<close>, or because the range was exhausted. An
  exception of the body leaves the loop and the script.
\<close>

datatype stop = Break | Exhausted

fun greedy_loop ::
  "(int list \<Rightarrow> 's \<Rightarrow> error + (int \<times> 's)) \<Rightarrow> int \<Rightarrow> nat \<Rightarrow> int list \<Rightarrow> 's \<Rightarrow>
   error + (stop \<times> int list)" where
  "greedy_loop body eos 0 tokens state = Inr (Exhausted, tokens)"
| "greedy_loop body eos (Suc n) tokens state =
     (case body tokens state of
        Inl e \<Rightarrow> Inl e
      | Inr (next_id, state') \<Rightarrow>
          if next_id = eos then Inr (Break, tokens @ [next_id])
          else greedy_loop body eos n (tokens @ [next_id]) state')"

text \<open>
  The same loop, returning the successive values of the variable \<^verbatim>\<open>tokens\<close>:
  its value before the first iteration, then its value after each append.
\<close>

fun tokens_history ::
  "(int list \<Rightarrow> 's \<Rightarrow> error + (int \<times> 's)) \<Rightarrow> int \<Rightarrow> nat \<Rightarrow> int list \<Rightarrow> 's \<Rightarrow>
   int list list" where
  "tokens_history body eos 0 tokens state = [tokens]"
| "tokens_history body eos (Suc n) tokens state =
     tokens #
     (case body tokens state of
        Inl e \<Rightarrow> []
      | Inr (next_id, state') \<Rightarrow>
          if next_id = eos then [tokens @ [next_id]]
          else tokens_history body eos n (tokens @ [next_id]) state')"

text \<open>
  tokenid_debug3.py: the state starts as \<^verbatim>\<open>np.zeros((1, 1, 256))\<close>, the tokens as
  \<^verbatim>\<open>[2]\<close>, the bound is 32 and the end marker 3.
\<close>

definition zeros_state :: "('a::zero) tensor3" where
  "zeros_state = [[replicate 256 0]]"

definition main_decode ::
  "(int list list \<Rightarrow> 'x \<Rightarrow> 'a tensor3 \<Rightarrow> error + (string \<times> ('a::{linorder,zero}) tensor3) list) \<Rightarrow>
   'x \<Rightarrow> error + (stop \<times> int list)" where
  "main_decode predict arr = greedy_loop (main_step predict arr) 3 32 [2] zeros_state"

definition main_history ::
  "(int list list \<Rightarrow> 'x \<Rightarrow> 'a tensor3 \<Rightarrow> error + (string \<times> ('a::{linorder,zero}) tensor3) list) \<Rightarrow>
   'x \<Rightarrow> int list list" where
  "main_history predict arr = tokens_history (main_step predict arr) 3 32 [2] zeros_state"

text \<open>
  tokenid_debug4.py: no state is carried from one iteration to the next.
\<close>

definition run_body ::
  "('x \<Rightarrow> int list list \<Rightarrow> error + (string \<times> fp tensor3) list) \<Rightarrow>
   'x \<Rightarrow> int list \<Rightarrow> unit \<Rightarrow> error + (int \<times> unit)" where
  "run_body predict arr tokens u =
     (case run_step predict arr tokens of
        Inl e \<Rightarrow> Inl e
      | Inr chosen \<Rightarrow> Inr (chosen, ()))"

definition run_decode ::
  "('x \<Rightarrow> int list list \<Rightarrow> error + (string \<times> fp tensor3) list) \<Rightarrow>
   'x \<Rightarrow> error + (stop \<times> int list)" where
  "run_decode predict arr =
     greedy_loop (run_body predict arr) EOS_ID MAX_LEN [BOS_ID] ()"

definition run_history ::
  "('x \<Rightarrow> int list list \<Rightarrow> error + (string \<times> fp tensor3) list) \<Rightarrow>
   'x \<Rightarrow> int list list" where
  "run_history predict arr =
     tokens_history (run_body predict arr) EOS_ID MAX_LEN [BOS_ID] ()"


section \<open>The scripts\<close>

text \<open>
  What lies outside the scripts is a record of functions: the file system
  (\<^verbatim>\<open>os.path.exists\<close>, the lines of a text file), \<^verbatim>\<open>str.strip\<close>, the model
  loader \<^verbatim>\<open>ct.models.MLModel\<close> and the inference call of a loaded model, and the
  image pipeline (\<^verbatim>\<open>crop_and_preprocess\<close> of tokenid_debug3.py;
  \<^verbatim>\<open>Image.open(..).convert("RGB")\<close>, \<^verbatim>\<open>autocrop\<close> and \<^verbatim>\<open>preprocess\<close> of
  tokenid_debug4.py, which are made of imaging-library calls only). Each of them
  may raise.
\<close>

record ('m, 'i, 'x, 'a) env =
  path_exists :: "string \<Rightarrow> bool"
  file_lines :: "string \<Rightarrow> error + string list"
  str_strip :: "string \<Rightarrow> string"
  MLModel :: "string \<Rightarrow> error + 'm"
  crop_and_preprocess :: "string \<Rightarrow> error + 'x"
  Image_open :: "string \<Rightarrow> error + 'i"
  autocrop :: "'i \<Rightarrow> error + 'i"
  preprocess :: "'i \<Rightarrow> nat \<Rightarrow> error + 'x"
  shape_text :: "'x \<Rightarrow> string"
  predict_with_state ::
    "'m \<Rightarrow> int list list \<Rightarrow> 'x \<Rightarrow> 'a tensor3 \<Rightarrow> error + (string \<times> 'a tensor3) list"
  predict_stateless :: "'m \<Rightarrow> 'x \<Rightarrow> int list list \<Rightarrow> error + (string \<times> fp tensor3) list"

text \<open>
  How a script ends: \<^verbatim>\<open>sys.exit(n)\<close>, an exception nothing catches, or the end of
  the script. The result of a script is the list of the lines it has printed and
  how it ended.
\<close>

datatype outcome = SysExit int | Uncaught error | Finished

text \<open>
  \<^verbatim>\<open>load_vocab\<close> (the same in both scripts): \<^verbatim>\<open>open\<close> raises
  \<open>FileNotFoundError\<close> on a path that does not exist; every line is stripped.
\<close>

definition load_vocab :: "('m, 'i, 'x, 'a) env \<Rightarrow> string \<Rightarrow> error + string list" where
  "load_vocab env vocab_path =
     (if \<not> path_exists env vocab_path then Inl FileNotFoundError
      else
        (case file_lines env vocab_path of
           Inl e \<Rightarrow> Inl e
         | Inr ls \<Rightarrow> Inr (map (str_strip env) ls)))"

text \<open>
  \<^verbatim>\<open>sys.argv[i] if len(sys.argv) > i else d\<close>, and the text \<^verbatim>\<open>print\<close> gives a
  list of integers.
\<close>

definition argv_or :: "string list \<Rightarrow> nat \<Rightarrow> string \<Rightarrow> string" where
  "argv_or argv i d = (if length argv > i then argv ! i else d)"

fun join :: "string \<Rightarrow> string list \<Rightarrow> string" where
  "join sep [] = []"
| "join sep [x] = x"
| "join sep (x # y # ys) = x @ sep @ join sep (y # ys)"

definition repr_int_list :: "int list \<Rightarrow> string" where
  "repr_int_list xs = ''['' @ join '', '' (map str_int xs) @ '']''"

text \<open>\<^verbatim>\<open>main()\<close> of tokenid_debug3.py (lines 40-77).\<close>

definition tokenid_debug3_main ::
  "('m, 'i, 'x, 'a::{linorder,zero}) env \<Rightarrow> string list \<Rightarrow> string list \<times> outcome" where
  "tokenid_debug3_main env argv =
     (if length argv < 3 then
        ([''Usage: python tokenid_debug3.py <image_path> <mlpackage_path> [vocab.txt]''], SysExit 1)
      else
        let image_path = argv ! 1;
            model_path = argv ! 2;
            vocab_path = argv_or argv 3 ''vocab.txt''
        in
          (case load_vocab env vocab_path of
             Inl e \<Rightarrow> ([], Uncaught e)
           | Inr vocab \<Rightarrow>
              (case MLModel env model_path of
                 Inl e \<Rightarrow> ([], Uncaught e)
               | Inr mlmodel \<Rightarrow>
                  (case crop_and_preprocess env image_path of
                     Inl e \<Rightarrow> ([], Uncaught e)
                   | Inr arr \<Rightarrow>
                      (case main_decode (predict_with_state env mlmodel) arr of
                         Inl e \<Rightarrow> ([], Uncaught e)
                       | Inr (how, tokens) \<Rightarrow>
                          (case decode_tokens tokens vocab of
                             Inl e \<Rightarrow> ([''FINAL TOKENS: '' @ repr_int_list tokens], Uncaught e)
                           | Inr decoded \<Rightarrow>
                              ([''FINAL TOKENS: '' @ repr_int_list tokens,
                                ''DECODED TEXT: '' @ decoded], Finished)))))))"

text \<open>\<^verbatim>\<open>run(img_path, mlmodel, vocab, target=224)\<close> of tokenid_debug4.py (lines 61-102).\<close>

definition run ::
  "('m, 'i, 'x, 'a) env \<Rightarrow> string \<Rightarrow> 'm \<Rightarrow> string list \<Rightarrow> nat \<Rightarrow>
   string list \<times> outcome" where
  "run env img_path mlmodel vocab target =
     (case Image_open env img_path of
        Inl e \<Rightarrow> ([], Uncaught e)
      | Inr pil_img \<Rightarrow>
         (case autocrop env pil_img of
            Inl e \<Rightarrow> ([], Uncaught e)
          | Inr cropped \<Rightarrow>
             (case preprocess env cropped target of
                Inl e \<Rightarrow> ([], Uncaught e)
              | Inr arr \<Rightarrow>
                 let shape_line =
                       ''Input shape: '' @ shape_text env arr @ '' target: '' @ str_nat target
                 in
                   (case run_decode (predict_stateless env mlmodel) arr of
                      Inl e \<Rightarrow> ([shape_line], Uncaught e)
                    | Inr (how, tokens) \<Rightarrow>
                       (case decode_tokens tokens vocab of
                          Inl e \<Rightarrow>
                            ([shape_line, ''FINAL TOKENS: '' @ repr_int_list tokens], Uncaught e)
                        | Inr decoded_text \<Rightarrow>
                            ([shape_line, ''FINAL TOKENS: '' @ repr_int_list tokens,
                              ''DECODED TEXT: '' @ decoded_text], Finished))))))"

text \<open>The \<^verbatim>\<open>__main__\<close> block of tokenid_debug4.py (lines 105-124).\<close>

definition tokenid_debug4_main ::
  "('m, 'i, 'x, 'a) env \<Rightarrow> string list \<Rightarrow> string list \<times> outcome" where
  "tokenid_debug4_main env argv =
     (if length argv < 2 then
        ([''Usage: python tokenid_debug2.py image.png [model.mlpackage] [vocab.txt]''], SysExit 1)
      else
        let image_path = argv ! 1;
            model_path = argv_or argv 2 ''manga_ocr.mlpackage'';
            vocab_path = argv_or argv 3 ''vocab.txt''
        in
          if \<not> path_exists env model_path then
            ([''Model file not found: '' @ model_path], SysExit 1)
          else if \<not> path_exists env vocab_path then
            ([''Vocab file not found: '' @ vocab_path], SysExit 1)
          else
            (case load_vocab env vocab_path of
               Inl e \<Rightarrow> ([], Uncaught e)
             | Inr vocab \<Rightarrow>
                (case MLModel env model_path of
                   Inl e \<Rightarrow> ([], Uncaught e)
                 | Inr mlmodel \<Rightarrow> run env image_path mlmodel vocab 224)))"

text \<open>
  An environment for examples: the paths listed exist, and the loaders raise
  \<open>FileNotFoundError\<close> on every other path; the vocabulary file has six lines;
  the model gives the end marker the highest score at every step.
\<close>

definition example_env :: "string list \<Rightarrow> (unit, unit, unit, int) env" where
  "example_env present =
     \<lparr>path_exists = (\<lambda>p. p \<in> set present),
      file_lines = (\<lambda>p. Inr [''[PAD]'', ''[UNK]'', ''[CLS]'', ''[SEP]'', ''a'', ''b'']),
      str_strip = (\<lambda>l. l),
      MLModel = (\<lambda>p. if p \<in> set present then Inr () else Inl FileNotFoundError),
      crop_and_preprocess = (\<lambda>p. if p \<in> set present then Inr () else Inl FileNotFoundError),
      Image_open = (\<lambda>p. if p \<in> set present then Inr () else Inl FileNotFoundError),
      autocrop = (\<lambda>i. Inr i),
      preprocess = (\<lambda>i target. Inr ()),
      shape_text = (\<lambda>x. ''(1, 3, 224, 224)''),
      predict_with_state = (\<lambda>m ids x st. Inr [(''logits'', [[[0, 0, 0, 1]]]), (''state'', st)]),
      predict_stateless =
        (\<lambda>m x ids. Inr [(''logits'', [[[Finite 0, Finite 0, Finite 0, Finite 1]]])])\<rparr>"


section \<open>Properties of decode_tokens\<close>

lemma in_dict_special_ids: "in_dict t special_ids \<longleftrightarrow> t \<in> {0, 1, 2, 3}"
  by (simp add: in_dict_def special_ids_def)

lemma py_getitem_in_range:
  "0 \<le> i \<Longrightarrow> i < int (length xs) \<Longrightarrow> py_getitem xs i = Inr (xs ! nat i)"
  by (simp add: py_getitem_def)

text \<open>
  What the loop returns, in closed form: it never raises, drops the special IDs,
  and maps every other ID to its vocabulary entry or to the placeholder.
\<close>

lemma decode_tokens_loop_closed:
  "decode_tokens_loop ts vocab decoded =
     Inr (decoded @
       map (\<lambda>t. if 0 \<le> t \<and> t < int (length vocab) then vocab ! nat t
                 else ''<UNK'' @ str_int t @ ''>'')
         (filter (\<lambda>t. t \<notin> {0, 1, 2, 3}) ts))"
proof (induction ts arbitrary: decoded)
  case Nil
  show ?case by simp
next
  case (Cons t ts)
  show ?case
  proof (cases "t \<in> {0, 1, 2, 3}")
    case True
    then have "in_dict t special_ids" by (simp add: in_dict_special_ids)
    with True Cons.IH show ?thesis by simp
  next
    case False
    then have ns: "\<not> in_dict t special_ids" by (simp add: in_dict_special_ids)
    show ?thesis
    proof (cases "0 \<le> t \<and> t < int (length vocab)")
      case True
      then have "py_getitem vocab t = Inr (vocab ! nat t)"
        by (simp add: py_getitem_in_range)
      with True False ns Cons.IH show ?thesis by simp
    next
      case out: False
      with False ns Cons.IH show ?thesis by auto
    qed
  qed
qed

lemma decode_tokens_closed:
  "decode_tokens ts vocab =
     Inr (concat (map (\<lambda>t. if 0 \<le> t \<and> t < int (length vocab) then vocab ! nat t
                            else ''<UNK'' @ str_int t @ ''>'')
                    (filter (\<lambda>t. t \<notin> {0, 1, 2, 3}) ts)))"
  by (simp add: decode_tokens_def decode_tokens_loop_closed)

lemma decode_tokens_append:
  "decode_tokens xs vocab = Inr a \<Longrightarrow> decode_tokens ys vocab = Inr b \<Longrightarrow>
   decode_tokens (xs @ ys) vocab = Inr (a @ b)"
  by (simp add: decode_tokens_closed)

lemma vocab_reads_bounds:
  "list_all (\<lambda>i. 0 \<le> i \<and> i < int (length V)) (vocab_reads T V)"
  by (induction T) auto

text \<open>
  Claim C2, as the spec words it: the sequence [2, 4, 5, 6, 3] decodes to "ABC"
  with the vocabulary ["A", "B", "C"], token IDs 4, 5, 6 reading indices 0, 1, 2.
  It does not: the scripts subtract no offset, and 4, 5, 6 are out of range of a
  vocabulary of three entries.
\<close>

theorem decode_example_offset_refuted:
  "decode_tokens [2, 4, 5, 6, 3] [''A'', ''B'', ''C''] \<noteq> Inr ''ABC''"
  by (simp add: decode_tokens_closed str_int_def str_nat.simps digit_char_def)

text \<open>
  Claim C2, amended: with the vocabulary ["A", "B", "C"] the sequence
  [2, 4, 5, 6, 3] decodes to the three placeholders; token ID \<open>t\<close> reads vocabulary
  index \<open>t\<close>, so the sequence decodes to "ABC" when "A", "B", "C" are the entries
  at indices 4, 5, 6, whatever the entries at indices 0 to 3.
\<close>

theorem decode_example_no_offset:
  "decode_tokens [2, 4, 5, 6, 3] [''A'', ''B'', ''C''] = Inr ''<UNK4><UNK5><UNK6>'' \<and>
   decode_tokens [2, 4, 5, 6, 3] [p0, p1, p2, p3, ''A'', ''B'', ''C''] = Inr ''ABC''"
  by (simp add: decode_tokens_closed str_int_def str_nat.simps digit_char_def)

text \<open>
  Claim C3: for every vocabulary \<open>V\<close> and every list \<open>T\<close> of integer token IDs,
  \<open>decode_tokens T V\<close> returns a string and never raises, and the special IDs
  0, 1, 2, 3 contribute no character: removing them from \<open>T\<close> leaves the result
  unchanged, and what they alone decode to is the empty string.
\<close>

theorem decode_tokens_total_skips_special:
  "(\<exists>s. decode_tokens T V = Inr s) \<and>
   decode_tokens T V = decode_tokens (filter (\<lambda>t. t \<notin> {0, 1, 2, 3}) T) V \<and>
   decode_tokens (filter (\<lambda>t. t \<in> {0, 1, 2, 3}) T) V = Inr []"
proof (intro conjI)
  show "\<exists>s. decode_tokens T V = Inr s"
    by (simp add: decode_tokens_closed)
  show "decode_tokens T V = decode_tokens (filter (\<lambda>t. t \<notin> {0, 1, 2, 3}) T) V"
    by (simp add: decode_tokens_closed)
  have "filter (\<lambda>t. t \<notin> {0, 1, 2, 3}) (filter (\<lambda>t. t \<in> {0, 1, 2, 3}) T) = ([]::int list)"
    by (induction T) auto
  then show "decode_tokens (filter (\<lambda>t. t \<in> {0, 1, 2, 3}) T) V = Inr []"
    by (simp only: decode_tokens_closed list.map concat.simps)
qed

text \<open>
  Claim C6: when every element of \<open>T\<close> is in the range of \<open>V\<close> and none is a
  special ID, \<open>decode_tokens T V\<close> is the concatenation, in order and without
  separators, of the entries \<open>V[t]\<close>.
\<close>

theorem decode_tokens_round_trip:
  assumes "\<forall>t \<in> set T. 0 \<le> t \<and> t < int (length V) \<and> t \<notin> {0, 1, 2, 3}"
  shows "decode_tokens T V = Inr (concat (map (\<lambda>t. V ! nat t) T))"
proof -
  from assms have keep: "filter (\<lambda>t. t \<notin> {0, 1, 2, 3}) T = T"
    by (induction T) auto
  from assms have "map (\<lambda>t. if 0 \<le> t \<and> t < int (length V) then V ! nat t
                           else ''<UNK'' @ str_int t @ ''>'') T = map (\<lambda>t. V ! nat t) T"
    by (intro map_cong) auto
  with keep show ?thesis
    by (simp only: decode_tokens_closed)
qed

theorem decode_tokens_round_trip_witness:
  "list_all (\<lambda>t::int. 0 \<le> t \<and> t < 7 \<and> t \<notin> {0, 1, 2, 3}) [4, 6, 5] \<and>
   decode_tokens [4, 6, 5] [''[PAD]'', ''[UNK]'', ''[CLS]'', ''[SEP]'', ''A'', ''B'', ''C''] =
     Inr ''ACB''"
  using decode_tokens_round_trip
    [of "[4, 6, 5]" "[''[PAD]'', ''[UNK]'', ''[CLS]'', ''[SEP]'', ''A'', ''B'', ''C'']"]
  by simp

text \<open>
  Claim C7: a token ID \<open>t\<close> that is not special and is at or beyond the length of
  the vocabulary decodes to the placeholder \<^verbatim>\<open><UNKt>\<close>, which holds the decimal text
  of \<open>t\<close>; alone or between other tokens, it neither raises nor is dropped.
\<close>

theorem out_of_range_placeholder:
  assumes "t \<notin> {0, 1, 2, 3}" and "int (length V) \<le> t"
  shows "decode_tokens [t] V = Inr (''<UNK'' @ str_int t @ ''>'') \<and>
         (\<exists>a b. decode_tokens xs V = Inr a \<and> decode_tokens ys V = Inr b \<and>
                decode_tokens (xs @ t # ys) V = Inr (a @ ''<UNK'' @ str_int t @ ''>'' @ b))"
  using assms by (simp add: decode_tokens_closed)

theorem out_of_range_placeholder_witness:
  "(8::int) \<notin> {0, 1, 2, 3} \<and> int (length [''A'', ''B'', ''C'']) \<le> 8 \<and>
   decode_tokens [8] [''A'', ''B'', ''C''] = Inr ''<UNK8>'' \<and>
   decode_tokens ([2, 1] @ 8 # [0, 3]) [''A'', ''B'', ''C''] = Inr ''<UNK8>''"
  using out_of_range_placeholder [of 8 "[''A'', ''B'', ''C'']" "[2, 1]" "[0, 3]"]
  by (auto simp: decode_tokens_closed str_int_def str_nat.simps digit_char_def)

text \<open>
  Claim C9: a negative token ID \<open>t\<close> decodes to the placeholder holding \<open>t\<close> with
  its minus sign, and the vocabulary is never read from the end: every index at
  which \<open>decode_tokens\<close> reads the vocabulary lies in \<open>[0, length V)\<close>, and a negative
  \<open>t\<close> is not among them.
\<close>

theorem negative_id_placeholder:
  assumes "t < 0"
  shows "decode_tokens [t] V = Inr (''<UNK-'' @ str_nat (nat (- t)) @ ''>'') \<and>
         (\<exists>a b. decode_tokens xs V = Inr a \<and> decode_tokens ys V = Inr b \<and>
                decode_tokens (xs @ t # ys) V = Inr (a @ ''<UNK'' @ str_int t @ ''>'' @ b)) \<and>
         (\<forall>i \<in> set (vocab_reads T V). 0 \<le> i \<and> i < int (length V)) \<and>
         t \<notin> set (vocab_reads (xs @ t # ys) V)"
proof -
  have r: "\<forall>i \<in> set (vocab_reads T' V). 0 \<le> i \<and> i < int (length V)" for T'
    using vocab_reads_bounds [of V T'] by (simp add: list_all_iff)
  from assms have "t \<notin> set (vocab_reads (xs @ t # ys) V)"
    using r [of "xs @ t # ys"] by auto
  with assms r [of T] show ?thesis
    by (simp add: decode_tokens_closed str_int_def)
qed

theorem negative_id_placeholder_witness:
  "(- 1::int) < 0 \<and>
   py_getitem [''A'', ''B'', ''C''] (- 1) = Inr ''C'' \<and>
   decode_tokens [- 1] [''A'', ''B'', ''C''] = Inr ''<UNK-1>'' \<and>
   decode_tokens ([2, 1] @ (- 1) # [0, 3]) [''A'', ''B'', ''C''] = Inr ''<UNK-1>'' \<and>
   vocab_reads ([2, 1] @ (- 1) # [0, 3]) [''A'', ''B'', ''C''] = []"
  using negative_id_placeholder [of "- 1" "[''A'', ''B'', ''C'']" "[2, 1]" "[0, 3]" "[]"]
  by (auto simp: decode_tokens_closed str_int_def str_nat.simps digit_char_def py_getitem_def
      in_dict_special_ids)


section \<open>Properties of float32 rounding\<close>

lemma round_half_even_of_int: "round_half_even (of_int n) = n"
  by (simp add: round_half_even_def)

lemma round_half_even_mono: "y \<le> y' \<Longrightarrow> round_half_even y \<le> round_half_even y'"
proof -
  assume le: "y \<le> y'"
  have fl: "\<lfloor>y\<rfloor> \<le> \<lfloor>y'\<rfloor>" using le by (rule floor_mono)
  show ?thesis
  proof (cases "\<lfloor>y\<rfloor> = \<lfloor>y'\<rfloor>")
    case True
    with le show ?thesis by (auto simp: round_half_even_def)
  next
    case False
    with fl have "\<lfloor>y\<rfloor> + 1 \<le> \<lfloor>y'\<rfloor>" by simp
    moreover have "round_half_even y \<le> \<lfloor>y\<rfloor> + 1" by (simp add: round_half_even_def)
    moreover have "\<lfloor>y'\<rfloor> \<le> round_half_even y'" by (simp add: round_half_even_def)
    ultimately show ?thesis by linarith
  qed
qed

lemma ulp_exponent_binade:
  assumes "2 powr of_int k \<le> \<bar>x\<bar>" and "\<bar>x\<bar> < 2 powr of_int (k + 1)"
  shows "ulp_exponent x = max (k - 23) (- 149)"
proof -
  have "0 < (2::real) powr of_int k" by simp
  with assms(1) have "0 < \<bar>x\<bar>" by linarith
  then have "\<lfloor>log 2 \<bar>x\<bar>\<rfloor> = k"
    using assms by (simp add: floor_log_eq_powr_iff)
  then show ?thesis by (simp add: ulp_exponent_def)
qed

text \<open>
  A number with a 24-bit significand and an exponent in range is a float32 value:
  rounding leaves it unchanged.
\<close>

lemma round32_representable:
  assumes x: "x = of_int m * 2 powr of_int e"
    and m: "2 ^ 23 \<le> \<bar>m\<bar>" "\<bar>m\<bar> < 2 ^ 24" and e: "- 149 \<le> e" "e \<le> 104"
  shows "round32 x = Finite x"
proof -
  have p: "0 < (2::real) powr of_int e" by simp
  have ax: "\<bar>x\<bar> = of_int \<bar>m\<bar> * 2 powr of_int e"
    using x by (simp add: abs_mult)
  have lo: "2 powr of_int (e + 23) \<le> \<bar>x\<bar>"
  proof -
    have "(2::real) powr of_int (e + 23) = 2 ^ 23 * 2 powr of_int e"
      by (simp add: powr_add powr_realpow [symmetric])
    also have "\<dots> \<le> of_int \<bar>m\<bar> * 2 powr of_int e"
    proof (rule mult_right_mono)
      have "real_of_int (2 ^ 23) \<le> real_of_int \<bar>m\<bar>" using m(1) by (simp only: of_int_le_iff)
      then show "(2::real) ^ 23 \<le> real_of_int \<bar>m\<bar>" by simp
    qed simp
    finally show ?thesis using ax by simp
  qed
  have hi: "\<bar>x\<bar> < 2 powr of_int (e + 23 + 1)"
  proof -
    have "real_of_int \<bar>m\<bar> < real_of_int (2 ^ 24)" using m(2) by (simp only: of_int_less_iff)
    then have "real_of_int \<bar>m\<bar> < 2 ^ 24" by simp
    then have "of_int \<bar>m\<bar> * 2 powr of_int e < 2 ^ 24 * (2::real) powr of_int e"
      using p by (simp only: mult_less_cancel_right_pos)
    also have "\<dots> = 2 powr of_int (e + 23 + 1)"
      by (simp add: powr_add powr_realpow [symmetric])
    finally show ?thesis using ax by simp
  qed
  have ue: "ulp_exponent x = e"
    using ulp_exponent_binade [OF lo hi] e by simp
  have q: "\<bar>x\<bar> / 2 powr of_int e = of_int \<bar>m\<bar>"
    using ax p by simp
  have "round_half_even (\<bar>x\<bar> / 2 powr of_int e) = \<bar>m\<bar>"
    by (simp only: q round_half_even_of_int)
  then have rm: "round_magnitude x = \<bar>x\<bar>"
    unfolding round_magnitude_def ue by (simp only: ax)
  have "\<bar>x\<bar> < 2 powr of_int (e + 23 + 1)" by (rule hi)
  also have "\<dots> \<le> 2 powr (real 128)"
    by (rule powr_mono) (use e in auto)
  also have "\<dots> = (2::real) ^ 128"
    by (rule powr_realpow) simp
  finally have small: "\<bar>x\<bar> < 2 ^ 128" .
  have "0 < (2::real) powr of_int (e + 23)" by simp
  with lo have "x \<noteq> 0" by auto
  with rm small show ?thesis by (auto simp: round32_def)
qed

lemma floor_log2_bounds:
  assumes "0 < (y::real)"
  shows "2 powr of_int \<lfloor>log 2 y\<rfloor> \<le> y" and "y < 2 powr of_int (\<lfloor>log 2 y\<rfloor> + 1)"
  using floor_log_eq_powr_iff [of y 2 "\<lfloor>log 2 y\<rfloor>"] assms by simp_all

lemma ulp_exponent_mono:
  assumes "0 < x" and "x \<le> y"
  shows "ulp_exponent x \<le> ulp_exponent y"
proof -
  from assms have "log 2 x \<le> log 2 y" by simp
  then have "\<lfloor>log 2 x\<rfloor> \<le> \<lfloor>log 2 y\<rfloor>" by (rule floor_mono)
  with assms show ?thesis by (simp add: ulp_exponent_def)
qed

lemma round_half_even_nonneg: "0 \<le> y \<Longrightarrow> 0 \<le> round_half_even y"
  using round_half_even_mono [of 0 y] round_half_even_of_int [of 0] by simp

lemma round_magnitude_nonneg: "0 \<le> round_magnitude x"
  unfolding round_magnitude_def
  by (intro mult_nonneg_nonneg) (simp_all add: round_half_even_nonneg)

lemma round_magnitude_minus: "round_magnitude (- x) = round_magnitude x"
  by (simp add: round_magnitude_def ulp_exponent_def)

text \<open>
  Rounding keeps the order. Within one binade it is the rounding of the significand
  that does; across binades the smaller number rounds to at most the power of two
  between them and the larger one to at least that power.
\<close>

lemma round_magnitude_mono:
  assumes "0 < x" and "x \<le> y"
  shows "round_magnitude x \<le> round_magnitude y"
proof -
  let ?ex = "ulp_exponent x" and ?ey = "ulp_exponent y"
  from assms have y: "0 < y" by simp
  have le: "?ex \<le> ?ey" using assms by (rule ulp_exponent_mono)
  show ?thesis
  proof (cases "?ex = ?ey")
    case True
    from assms have "\<bar>x\<bar> / 2 powr of_int ?ey \<le> \<bar>y\<bar> / 2 powr of_int ?ey"
      by (simp add: divide_right_mono)
    then have "round_half_even (\<bar>x\<bar> / 2 powr of_int ?ey) \<le> round_half_even (\<bar>y\<bar> / 2 powr of_int ?ey)"
      by (rule round_half_even_mono)
    then have "real_of_int (round_half_even (\<bar>x\<bar> / 2 powr of_int ?ey)) * 2 powr of_int ?ey
        \<le> real_of_int (round_half_even (\<bar>y\<bar> / 2 powr of_int ?ey)) * 2 powr of_int ?ey"
      by (intro mult_right_mono) simp_all
    with True show ?thesis by (simp add: round_magnitude_def)
  next
    case False
    with le have lt: "?ex < ?ey" by simp
    have "- 149 \<le> ?ex" by (simp add: ulp_exponent_def)
    with lt have ey: "?ey = \<lfloor>log 2 y\<rfloor> - 23"
      using y by (simp add: ulp_exponent_def max_def split: if_splits)
    have "\<lfloor>log 2 x\<rfloor> - 23 \<le> ?ex"
      using assms(1) by (simp add: ulp_exponent_def)
    then have fx: "\<lfloor>log 2 x\<rfloor> + 1 \<le> ?ex + 24" by simp
    have "x < 2 powr of_int (\<lfloor>log 2 x\<rfloor> + 1)"
      using floor_log2_bounds(2) [OF assms(1)] .
    also have "\<dots> \<le> 2 powr of_int (?ex + 24)"
      by (rule powr_mono) (use fx in simp_all)
    finally have xb: "x < 2 powr of_int (?ex + 24)" .
    have p24: "(2::real) powr of_int (?ex + 24) = 2 ^ 24 * 2 powr of_int ?ex"
      by (simp add: powr_add powr_realpow [symmetric])
    have "\<bar>x\<bar> / 2 powr of_int ?ex \<le> real_of_int (2 ^ 24)"
      using xb assms(1) p24 by (simp add: divide_le_eq)
    then have "round_half_even (\<bar>x\<bar> / 2 powr of_int ?ex) \<le> round_half_even (real_of_int (2 ^ 24))"
      by (rule round_half_even_mono)
    then have "round_half_even (\<bar>x\<bar> / 2 powr of_int ?ex) \<le> 2 ^ 24"
      by (simp only: round_half_even_of_int)
    then have "real_of_int (round_half_even (\<bar>x\<bar> / 2 powr of_int ?ex)) \<le> real_of_int (2 ^ 24)"
      by (simp only: of_int_le_iff)
    then have "round_magnitude x \<le> 2 ^ 24 * 2 powr of_int ?ex"
      unfolding round_magnitude_def by (intro mult_right_mono) simp_all
    also have "\<dots> = 2 powr of_int (?ex + 24)" by (simp only: p24)
    also have "\<dots> \<le> 2 powr of_int (?ey + 23)"
      by (rule powr_mono) (use lt in simp_all)
    finally have upper: "round_magnitude x \<le> 2 powr of_int (?ey + 23)" .
    have p23: "(2::real) powr of_int (?ey + 23) = 2 ^ 23 * 2 powr of_int ?ey"
      by (simp add: powr_add powr_realpow [symmetric])
    have "2 powr of_int (?ey + 23) \<le> y"
      using floor_log2_bounds(1) [OF y] ey by simp
    then have "real_of_int (2 ^ 23) \<le> \<bar>y\<bar> / 2 powr of_int ?ey"
      using y p23 by (simp add: le_divide_eq)
    then have "round_half_even (real_of_int (2 ^ 23)) \<le> round_half_even (\<bar>y\<bar> / 2 powr of_int ?ey)"
      by (rule round_half_even_mono)
    then have "2 ^ 23 \<le> round_half_even (\<bar>y\<bar> / 2 powr of_int ?ey)"
      by (simp only: round_half_even_of_int)
    then have "real_of_int (2 ^ 23) \<le> real_of_int (round_half_even (\<bar>y\<bar> / 2 powr of_int ?ey))"
      by (simp only: of_int_le_iff)
    then have "2 ^ 23 * 2 powr of_int ?ey \<le> round_magnitude y"
      unfolding round_magnitude_def by (intro mult_right_mono) simp_all
    with p23 have "2 powr of_int (?ey + 23) \<le> round_magnitude y" by simp
    with upper show ?thesis by simp
  qed
qed

lemma round32_pos: "0 < x \<Longrightarrow> Finite 0 \<le> round32 x"
  using round_magnitude_nonneg [of x] by (simp add: round32_def less_eq_fp_def)

lemma round32_neg: "x < 0 \<Longrightarrow> round32 x \<le> Finite 0"
  using round_magnitude_nonneg [of x] by (simp add: round32_def less_eq_fp_def)

lemma round32_mono:
  assumes "x \<le> y"
  shows "round32 x \<le> round32 y"
proof -
  consider "x = y" | "x < 0" "0 \<le> y" | "x = 0" "0 < y" | "0 < x" "x < y" | "x < y" "y < 0"
    using assms by linarith
  then show ?thesis
  proof cases
    case 1
    then show ?thesis by simp
  next
    case 2
    have "round32 x \<le> Finite 0" using 2(1) by (rule round32_neg)
    moreover have "Finite 0 \<le> round32 y"
      using 2(2) round32_pos [of y] by (cases "y = 0") (simp_all add: round32_def)
    ultimately show ?thesis by (rule order_trans)
  next
    case 3
    then show ?thesis using round32_pos [of y] by (simp add: round32_def)
  next
    case 4
    then have m: "round_magnitude x \<le> round_magnitude y"
      by (intro round_magnitude_mono) simp_all
    with 4 show ?thesis by (auto simp: round32_def less_eq_fp_def)
  next
    case 5
    then have "0 < - y" "- y \<le> - x" by simp_all
    then have "round_magnitude (- y) \<le> round_magnitude (- x)" by (rule round_magnitude_mono)
    then have m: "round_magnitude y \<le> round_magnitude x" by (simp only: round_magnitude_minus)
    with 5 show ?thesis by (auto simp: round32_def less_eq_fp_def)
  qed
qed

text \<open>The float32 values that the examples below go through.\<close>

lemma round32_pow2:
  assumes "- 126 \<le> k" and "k \<le> 127"
  shows "round32 (2 powr of_int k) = Finite (2 powr of_int k)"
    and "round32 (- (2 powr of_int k)) = Finite (- (2 powr of_int k))"
proof -
  have e: "(2::real) powr of_int k = of_int (2 ^ 23) * 2 powr of_int (k - 23)"
    by (simp add: powr_diff powr_realpow [symmetric])
  show "round32 (2 powr of_int k) = Finite (2 powr of_int k)"
    by (rule round32_representable [OF e]) (use assms in simp_all)
  have e': "- ((2::real) powr of_int k) = of_int (- (2 ^ 23)) * 2 powr of_int (k - 23)"
    by (simp add: powr_diff powr_realpow [symmetric])
  show "round32 (- (2 powr of_int k)) = Finite (- (2 powr of_int k))"
    by (rule round32_representable [OF e']) (use assms in simp_all)
qed

lemma round32_0: "round32 0 = Finite 0"
  by (simp add: round32_def)

lemma round32_1: "round32 1 = Finite 1"
  using round32_pow2(1) [of 0] by simp

lemma round32_2: "round32 2 = Finite 2"
  using round32_pow2(1) [of 1] by simp

lemma round32_half: "round32 (1 / 2) = Finite (1 / 2)"
  using round32_pow2(1) [of "- 1"] by (simp add: powr_minus_divide)

lemma round32_tiny: "round32 (- (1 / 2 ^ 30)) = Finite (- (1 / 2 ^ 30))"
proof -
  have "(- (1 / 2 ^ 30)::real) = of_int (- (2 ^ 23)) * 2 powr of_int (- 53)"
    by (simp add: powr_neg_numeral)
  then show ?thesis by (rule round32_representable) simp_all
qed

lemma round32_m200: "round32 (- 200) = Finite (- 200)"
proof -
  have "(- 200::real) = of_int (- 13107200) * 2 powr of_int (- 16)"
    by (simp add: powr_neg_numeral)
  then show ?thesis by (rule round32_representable) simp_all
qed

text \<open>
  The exponential of a negative number above \<open>-2^(-25)\<close> lies above the midpoint
  between 1 and the float32 value before it, and rounds to 1.
\<close>

lemma round32_exp_near_one:
  assumes "- (1 / 2 ^ 25) < x" and "x < 0"
  shows "round32 (exp x) = Finite 1"
proof -
  define y where "y = exp x"
  have lo: "1 - 1 / 2 ^ 25 < y"
    using exp_ge_add_one_self [of x] assms(1) unfolding y_def by linarith
  have hi: "y < 1" using assms(2) by (simp add: y_def)
  have "2 powr of_int (- 1) \<le> \<bar>y\<bar>"
    using lo by (simp add: powr_minus_divide)
  moreover have "\<bar>y\<bar> < 2 powr of_int (- 1 + 1)" using hi lo by simp
  ultimately have ue: "ulp_exponent y = - 24"
    using ulp_exponent_binade [of "- 1" y] by simp
  define z where "z = \<bar>y\<bar> / 2 powr of_int (- 24)"
  have z: "z = y * 2 ^ 24" using lo by (simp add: z_def powr_neg_numeral)
  have zl: "2 ^ 24 - 1 / 2 < z" using lo unfolding z by simp
  have zh: "z < 2 ^ 24" using hi unfolding z by simp
  have "real_of_int (2 ^ 24 - 1) \<le> z" "z < real_of_int (2 ^ 24 - 1) + 1"
    using zl zh by simp_all
  then have fl: "\<lfloor>z\<rfloor> = 2 ^ 24 - 1" by (rule floor_unique)
  have "1 / 2 < z - real_of_int (2 ^ 24 - 1)" using zl by simp
  then have "round_half_even z = 2 ^ 24"
    unfolding round_half_even_def fl by simp
  then have "round_magnitude y = 1"
    unfolding round_magnitude_def ue z_def [symmetric] by (simp add: powr_neg_numeral)
  moreover have "y \<noteq> 0" "0 < y" by (simp_all add: y_def)
  ultimately show ?thesis unfolding y_def [symmetric] by (simp add: round32_def)
qed

text \<open>The exponential of a number at or below -200 is below half the least float32
  value, and rounds to zero.\<close>

lemma round32_exp_underflow:
  assumes "x \<le> - 200"
  shows "round32 (exp x) = Finite 0"
proof -
  define y where "y = exp x"
  have "(2::real) \<le> exp 1" using exp_ge_add_one_self [of 1] by simp
  then have "(2::real) ^ 200 \<le> exp 1 ^ 200" by (rule power_mono) simp
  also have "\<dots> = exp (of_nat 200 * 1)" by (rule exp_of_nat_mult [symmetric])
  finally have "(2::real) ^ 200 \<le> exp 200" by simp
  then have "exp (- 200) \<le> 1 / (2::real) ^ 200"
    by (simp add: exp_minus inverse_eq_divide frac_le)
  moreover have "y \<le> exp (- 200)" using assms by (simp add: y_def)
  ultimately have yb: "y \<le> 1 / 2 ^ 200" by linarith
  have y0: "0 < y" by (simp add: y_def)
  have "(1::real) / 2 ^ 200 = 2 powr (- 200)" by (simp add: powr_neg_numeral)
  with yb have "y \<le> 2 powr (- 200)" by simp
  with y0 have "log 2 y \<le> log 2 (2 powr (- 200))"
    by (simp only: log_le_cancel_iff [of 2 y "2 powr (- 200)"] powr_gt_zero)
  then have "log 2 y \<le> - 200" by simp
  then have fl200: "\<lfloor>log 2 y\<rfloor> \<le> - 200"
    by (simp add: floor_le_iff)
  have "\<bar>y\<bar> = y" using y0 by simp
  then have "ulp_exponent y = max (\<lfloor>log 2 y\<rfloor> - 23) (- 149)"
    by (simp only: ulp_exponent_def)
  also have "\<dots> = - 149"
  proof -
    from fl200 have "\<lfloor>log 2 y\<rfloor> - 23 \<le> - 149" by linarith
    then show ?thesis by (rule max_absorb2)
  qed
  finally have ue: "ulp_exponent y = - 149" .
  define z where "z = \<bar>y\<bar> / 2 powr of_int (- 149)"
  have z: "z = y * 2 ^ 149" using y0 by (simp add: z_def powr_neg_numeral)
  have "y * 2 ^ 149 \<le> (1 / 2 ^ 200) * 2 ^ 149"
    using yb by (intro mult_right_mono) simp_all
  also have "\<dots> < 1 / 2" by simp
  finally have zh: "z < 1 / 2" by (simp only: z)
  have zl: "0 \<le> z" using y0 unfolding z by simp
  have "real_of_int 0 \<le> z" "z < real_of_int 0 + 1" using zl zh by simp_all
  then have fl: "\<lfloor>z\<rfloor> = 0" by (rule floor_unique)
  have "round_half_even z = 0"
    unfolding round_half_even_def fl using zh by simp
  then have "round_magnitude y = 0"
    unfolding round_magnitude_def ue z_def [symmetric] by simp
  with y0 show ?thesis unfolding y_def [symmetric] by (simp add: round32_def)
qed

lemma fold_max_ge: "x \<le> fold max xs (x::'a::linorder)"
  by (induction xs arbitrary: x) (auto intro: order_trans [OF max.cobounded2])

lemma fold_max_bounds:
  "(\<forall>y \<in> set (x # xs). y \<le> fold max xs (x::'a::linorder)) \<and> fold max xs x \<in> set (x # xs)"
proof (induction xs arbitrary: x)
  case Nil
  show ?case by simp
next
  case (Cons a xs)
  from Cons.IH [of "max a x"] fold_max_ge [of "max a x" xs]
  show ?case by (auto simp: max_def split: if_splits)
qed

lemma np_max_Inr:
  assumes "np_max xs = Inr m"
  shows "m \<in> set xs \<and> (\<forall>y \<in> set xs. y \<le> m)"
proof (cases xs)
  case Nil
  with assms show ?thesis by (simp add: np_max_def)
next
  case (Cons x rest)
  with assms fold_max_bounds [of x rest] show ?thesis by (simp add: np_max_def)
qed

lemma round32_not_NaN: "round32 x \<noteq> NaN"
  by (simp add: round32_def)

lemma round32_nonneg: "0 \<le> x \<Longrightarrow> Finite 0 \<le> round32 x"
  using round32_mono [of 0 x] by (simp add: round32_0)

lemma round32_nonpos: "x \<le> 0 \<Longrightarrow> round32 x \<le> Finite 0"
  using round32_mono [of x 0] by (simp add: round32_0)

lemma unit_fp_Finite: "unit_fp a \<Longrightarrow> \<exists>v. a = Finite v \<and> 0 \<le> v \<and> v \<le> 1"
  by (cases a) (auto simp: unit_fp_def less_eq_fp_def)

lemma exp32_sub32_unit:
  assumes "x \<le> Finite mv" and "is_finite x"
  shows "unit_fp (exp32 (sub32 x (Finite mv)))"
proof -
  from assms obtain v where x: "x = Finite v" and v: "v \<le> mv"
    by (cases x) (auto simp: less_eq_fp_def)
  have d: "round32 (v - mv) \<le> Finite 0" using v by (intro round32_nonpos) simp
  show ?thesis
  proof (cases "round32 (v - mv)")
    case NInf
    then show ?thesis by (simp add: x unit_fp_def less_eq_fp_def)
  next
    case (Finite d)
    with d have "d \<le> 0" by (simp add: less_eq_fp_def)
    then have "exp d \<le> 1" by simp
    then have "round32 (exp d) \<le> Finite 1"
      using round32_mono [of "exp d" 1] by (simp add: round32_1)
    moreover have "Finite 0 \<le> round32 (exp d)" by (intro round32_nonneg) simp
    ultimately show ?thesis by (simp add: x Finite unit_fp_def)
  next
    case PInf
    with d show ?thesis by (simp add: less_eq_fp_def)
  next
    case NaN
    then show ?thesis by (simp add: round32_not_NaN)
  qed
qed

lemma exp32_sub32_mono:
  assumes "x \<le> y" and "is_finite x" and "is_finite y"
  shows "exp32 (sub32 x (Finite mv)) \<le> exp32 (sub32 y (Finite mv))"
proof -
  from assms obtain v w where x: "x = Finite v" and y: "y = Finite w" and vw: "v \<le> w"
    by (cases x; cases y) (auto simp: less_eq_fp_def)
  have s: "round32 (v - mv) \<le> round32 (w - mv)" using vw by (intro round32_mono) simp
  have e: "exp32 a \<le> exp32 b" if "a \<le> b" "a \<noteq> NaN" "b \<noteq> NaN" for a b
  proof (cases a)
    case NInf
    show ?thesis
    proof (cases b)
      case (Finite bv)
      then show ?thesis using NInf round32_nonneg [of "exp bv"] by simp
    qed (use NInf that in \<open>simp_all add: less_eq_fp_def\<close>)
  next
    case (Finite av)
    show ?thesis
    proof (cases b)
      case (Finite bv)
      with \<open>a = Finite av\<close> that have "av \<le> bv" by (simp add: less_eq_fp_def)
      then have "round32 (exp av) \<le> round32 (exp bv)" by (intro round32_mono) simp
      with Finite \<open>a = Finite av\<close> show ?thesis by simp
    next
      case PInf
      then show ?thesis using Finite round32_not_NaN [of "exp av"]
        by (cases "round32 (exp av)") (simp_all add: less_eq_fp_def)
    qed (use Finite that in \<open>simp_all add: less_eq_fp_def\<close>)
  next
    case PInf
    with that show ?thesis by (cases b) (simp_all add: less_eq_fp_def)
  next
    case NaN
    with that show ?thesis by simp
  qed
  from e [OF s round32_not_NaN round32_not_NaN] show ?thesis by (simp add: x y)
qed

lemma exp32_sub32_self: "exp32 (sub32 (Finite mv) (Finite mv)) = Finite 1"
  by (simp add: round32_0 round32_1)

lemma foldl_add32_ge_one:
  assumes "list_all unit_fp es" and "Finite 1 \<le> acc" and "acc \<noteq> NaN"
  shows "Finite 1 \<le> foldl add32 acc es \<and> foldl add32 acc es \<noteq> NaN"
  using assms
proof (induction es arbitrary: acc)
  case Nil
  then show ?case by simp
next
  case (Cons a es)
  from Cons.prems(1) obtain v where a: "a = Finite v" "0 \<le> v" "v \<le> 1"
    using unit_fp_Finite by auto
  have "Finite 1 \<le> add32 acc a \<and> add32 acc a \<noteq> NaN"
  proof (cases acc)
    case (Finite c)
    with Cons.prems(2) have "1 \<le> c" by (simp add: less_eq_fp_def)
    with a have "1 \<le> c + v" by simp
    then have "round32 1 \<le> round32 (c + v)" by (rule round32_mono)
    then show ?thesis by (simp add: Finite a round32_1 round32_not_NaN)
  next
    case PInf
    then show ?thesis by (simp add: a less_eq_fp_def)
  qed (use Cons.prems in \<open>simp_all add: less_eq_fp_def\<close>)
  with Cons.IH [of "add32 acc a"] Cons.prems(1) show ?case by simp
qed

lemma foldl_add32_with_one:
  assumes "list_all unit_fp es" and "Finite 1 \<in> set es" and "Finite 0 \<le> acc" and "acc \<noteq> NaN"
  shows "Finite 1 \<le> foldl add32 acc es \<and> foldl add32 acc es \<noteq> NaN"
  using assms
proof (induction es arbitrary: acc)
  case Nil
  then show ?case by simp
next
  case (Cons a es)
  from Cons.prems(1) obtain v where a: "a = Finite v" "0 \<le> v" "v \<le> 1"
    using unit_fp_Finite by auto
  have acc': "Finite 0 \<le> add32 acc a \<and> add32 acc a \<noteq> NaN"
  proof (cases acc)
    case (Finite c)
    with Cons.prems(3) have "0 \<le> c" by (simp add: less_eq_fp_def)
    with a have "0 \<le> c + v" by simp
    then have "Finite 0 \<le> round32 (c + v)" by (rule round32_nonneg)
    then show ?thesis by (simp add: Finite a round32_not_NaN)
  next
    case PInf
    then show ?thesis by (simp add: a less_eq_fp_def)
  qed (use Cons.prems in \<open>simp_all add: less_eq_fp_def\<close>)
  show ?case
  proof (cases "a = Finite 1")
    case True
    have "Finite 1 \<le> add32 acc a"
    proof (cases acc)
      case (Finite c)
      with Cons.prems(3) have "0 \<le> c" by (simp add: less_eq_fp_def)
      then have "round32 1 \<le> round32 (c + 1)" by (intro round32_mono) simp
      then show ?thesis by (simp add: Finite True round32_1)
    next
      case PInf
      then show ?thesis by (simp add: True less_eq_fp_def)
    qed (use Cons.prems in \<open>simp_all add: less_eq_fp_def\<close>)
    with acc' foldl_add32_ge_one [of es "add32 acc a"] Cons.prems(1) show ?thesis by simp
  next
    case False
    with Cons.prems(2) have "Finite 1 \<in> set es" by auto
    with Cons.IH [of "add32 acc a"] acc' Cons.prems(1) show ?thesis by simp
  qed
qed

lemma div32_mono:
  assumes "unit_fp a" and "unit_fp b" and "a \<le> b" and "Finite 1 \<le> s" and "s \<noteq> NaN"
  shows "div32 a s \<le> div32 b s"
proof -
  from assms(1,2) obtain v w where a: "a = Finite v" and b: "b = Finite w"
    using unit_fp_Finite by blast
  from assms(3) a b have vw: "v \<le> w" by (simp add: less_eq_fp_def)
  show ?thesis
  proof (cases s)
    case (Finite c)
    with assms(4) have c: "1 \<le> c" by (simp add: less_eq_fp_def)
    then have "v / c \<le> w / c" using vw by (simp add: divide_right_mono)
    then have "round32 (v / c) \<le> round32 (w / c)" by (rule round32_mono)
    with c show ?thesis by (simp add: a b Finite)
  next
    case PInf
    then show ?thesis by (simp add: a b)
  qed (use assms in \<open>simp_all add: less_eq_fp_def\<close>)
qed

section \<open>Properties of the selection step\<close>

lemma argmax_scan_first_max:
  assumes "bi < length pre" and "pre ! bi = best"
    and "\<forall>j<length pre. pre ! j \<le> best" and "\<forall>j<bi. pre ! j < best"
  shows "argmax_scan xs (length pre) best bi < length (pre @ xs) \<and>
         (\<forall>j<length (pre @ xs). (pre @ xs) ! j \<le> (pre @ xs) ! argmax_scan xs (length pre) best bi) \<and>
         (\<forall>j<argmax_scan xs (length pre) best bi.
            (pre @ xs) ! j < (pre @ xs) ! argmax_scan xs (length pre) best bi)"
  using assms
proof (induction xs arbitrary: pre best bi)
  case Nil
  then show ?case by simp
next
  case (Cons x xs)
  show ?case
  proof (cases "best < x")
    case True
    have a1: "length pre < length (pre @ [x])" by simp
    have a2: "(pre @ [x]) ! length pre = x" by simp
    have a3: "\<forall>j<length (pre @ [x]). (pre @ [x]) ! j \<le> x"
      using Cons.prems(3) True by (auto simp: nth_append less_Suc_eq intro: order.trans less_imp_le)
    have a4: "\<forall>j<length pre. (pre @ [x]) ! j < x"
      using Cons.prems(3) True by (auto simp: nth_append intro: le_less_trans)
    from Cons.IH [OF a1 a2 a3 a4] True show ?thesis by simp
  next
    case False
    have b1: "bi < length (pre @ [x])" using Cons.prems(1) by simp
    have b2: "(pre @ [x]) ! bi = best" using Cons.prems(1,2) by (simp add: nth_append)
    have b3: "\<forall>j<length (pre @ [x]). (pre @ [x]) ! j \<le> best"
      using Cons.prems(3) False by (auto simp: nth_append less_Suc_eq)
    have b4: "\<forall>j<bi. (pre @ [x]) ! j < best"
      using Cons.prems(1,4) by (auto simp: nth_append)
    from Cons.IH [OF b1 b2 b3 b4] False show ?thesis by simp
  qed
qed

lemma np_argmax_first_max:
  assumes "np_argmax xs = Inr i"
  shows "i < length xs \<and> (\<forall>j<length xs. xs ! j \<le> xs ! i) \<and> (\<forall>j<i. xs ! j < xs ! i)"
proof (cases xs)
  case Nil
  with assms show ?thesis by (simp add: np_argmax_def)
next
  case (Cons x rest)
  with assms have i: "i = argmax_scan rest (length [x]) x 0"
    by (simp add: np_argmax_def)
  have "argmax_scan rest (length [x]) x 0 < length ([x] @ rest) \<and>
        (\<forall>j<length ([x] @ rest). ([x] @ rest) ! j \<le> ([x] @ rest) ! argmax_scan rest (length [x]) x 0) \<and>
        (\<forall>j<argmax_scan rest (length [x]) x 0.
            ([x] @ rest) ! j < ([x] @ rest) ! argmax_scan rest (length [x]) x 0)"
    by (rule argmax_scan_first_max) simp_all
  with i Cons show ?thesis by simp
qed

lemma np_argmax_nonempty: "xs \<noteq> [] \<Longrightarrow> \<exists>i. np_argmax xs = Inr i"
  by (cases xs) (simp_all add: np_argmax_def)

lemma first_max_unique:
  fixes xs :: "'a::linorder list"
  assumes "i < length xs" "\<forall>j<length xs. xs ! j \<le> xs ! i" "\<forall>j<i. xs ! j < xs ! i"
    and "k < length xs" "\<forall>j<length xs. xs ! j \<le> xs ! k" "\<forall>j<k. xs ! j < xs ! k"
  shows "i = k"
proof (rule ccontr)
  assume "i \<noteq> k"
  then consider "i < k" | "k < i" by linarith
  then show False
  proof cases
    case 1
    with assms(6) have "xs ! i < xs ! k" by simp
    moreover from assms(1,2,4) have "xs ! k \<le> xs ! i" by simp
    ultimately show False by simp
  next
    case 2
    with assms(3) have "xs ! k < xs ! i" by simp
    moreover from assms(1,4,5) have "xs ! i \<le> xs ! k" by simp
    ultimately show False by simp
  qed
qed

text \<open>
  The arg-max does not change under a transformation of the row that keeps the strict
  order of every two entries.
\<close>

lemma np_argmax_order_preserving:
  fixes xs :: "'a::linorder list" and ps :: "'p::linorder list"
  assumes len: "length ps = length xs"
    and mono: "\<forall>i<length xs. \<forall>j<length xs. (ps ! i < ps ! j) = (xs ! i < xs ! j)"
  shows "np_argmax ps = np_argmax xs"
proof (cases xs)
  case Nil
  with len show ?thesis by (simp add: np_argmax_def)
next
  case (Cons x rest)
  then have "xs \<noteq> []" by simp
  with len have "ps \<noteq> []" by auto
  from np_argmax_nonempty [OF \<open>xs \<noteq> []\<close>] obtain i where i: "np_argmax xs = Inr i" by blast
  from np_argmax_nonempty [OF \<open>ps \<noteq> []\<close>] obtain k where k: "np_argmax ps = Inr k" by blast
  from np_argmax_first_max [OF i]
  have i1: "i < length xs" and i2: "\<forall>j<length xs. xs ! j \<le> xs ! i" and i3: "\<forall>j<i. xs ! j < xs ! i"
    by blast+
  from np_argmax_first_max [OF k] len
  have k1: "k < length xs" and k2: "\<forall>j<length xs. ps ! j \<le> ps ! k" and k3: "\<forall>j<k. ps ! j < ps ! k"
    by simp_all
  have k2': "\<forall>j<length xs. xs ! j \<le> xs ! k"
  proof (intro allI impI)
    fix j assume j: "j < length xs"
    with k2 have "\<not> ps ! k < ps ! j" by (simp add: not_less)
    with mono k1 j have "\<not> xs ! k < xs ! j" by simp
    then show "xs ! j \<le> xs ! k" by (simp add: not_less)
  qed
  have k3': "\<forall>j<k. xs ! j < xs ! k"
  proof (intro allI impI)
    fix j assume j: "j < k"
    with k3 have "ps ! j < ps ! k" by simp
    moreover from j k1 have "j < length xs" by simp
    ultimately show "xs ! j < xs ! k" using mono k1 by simp
  qed
  from first_max_unique [OF i1 i2 i3 k1 k2' k3'] i k show ?thesis by simp
qed

lemma last_position_Inr:
  "last_position logits = Inr row \<Longrightarrow> logits \<noteq> [] \<and> hd logits \<noteq> [] \<and> row = last (hd logits)"
  by (cases logits; cases "hd logits" rule: rev_cases)
     (auto simp: last_position_def py_getitem_def split: if_splits sum.splits)


text \<open>
  Under a transformation that only keeps the weak order (equal or smaller entries
  may become equal), the arg-max of the image is the lowest index whose image equals
  that of the arg-max of the row, and it is not after it.
\<close>

lemma np_argmax_monotone_image:
  fixes xs :: "'a::linorder list" and ps :: "'p::linorder list"
  assumes len: "length ps = length xs"
    and mono: "\<And>i j. i < length xs \<Longrightarrow> j < length xs \<Longrightarrow> xs ! i \<le> xs ! j \<Longrightarrow> ps ! i \<le> ps ! j"
    and k: "np_argmax xs = Inr k" and j: "np_argmax ps = Inr j"
  shows "j \<le> k \<and> ps ! j = ps ! k \<and> (\<forall>i<j. ps ! i < ps ! k)"
proof -
  from np_argmax_first_max [OF k]
  have k1: "k < length xs" and k2: "\<forall>i<length xs. xs ! i \<le> xs ! k" by blast+
  from np_argmax_first_max [OF j] len
  have j1: "j < length xs" and j2: "\<forall>i<length xs. ps ! i \<le> ps ! j" and j3: "\<forall>i<j. ps ! i < ps ! j"
    by simp_all
  from k1 k2 j1 have "ps ! j \<le> ps ! k" by (intro mono) simp_all
  moreover from j2 k1 have "ps ! k \<le> ps ! j" by simp
  ultimately have eq: "ps ! j = ps ! k" by simp
  have "j \<le> k"
  proof (rule ccontr)
    assume "\<not> j \<le> k"
    then have "k < j" by simp
    with j3 have "ps ! k < ps ! j" by simp
    with eq show False by simp
  qed
  with eq j3 show ?thesis by simp
qed

lemma main_step_Inr:
  assumes "main_step predict arr tokens state = Inr (next_id, state')"
  shows "\<exists>out logits row.
           predict [tokens] arr state = Inr out \<and> dict_get out ''logits'' = Inr logits \<and>
           dict_get out ''state'' = Inr state' \<and>
           last_position logits = Inr row \<and> (\<exists>i. np_argmax row = Inr i \<and> next_id = int i)"
  using assms by (auto simp: main_step_def split: sum.splits)

lemma run_step_Inr:
  assumes "run_step predict arr tokens = Inr chosen"
  shows "\<exists>out raw logits row probs.
           predict arr [tokens] = Inr out \<and>
           (if in_dict ''logits'' out then dict_get out ''logits''
            else py_getitem (map snd out) 0) = Inr raw \<and>
           np_array_f32 raw = Inr logits \<and>
           last_position logits = Inr row \<and> softmax_f32 row = Inr probs \<and>
           (\<exists>i. np_argmax probs = Inr i \<and> chosen = int i)"
  using assms by (auto simp: run_step_def split: sum.splits if_splits)

text \<open>
  The probabilities in closed form, and their order on a row of finite logits: every
  exponential lies between 0 and 1, the one of the maximum is 1, so the sum is at
  least 1 and no NaN, and a smaller or equal logit has a smaller or equal probability.
\<close>

lemma softmax_f32_Inr:
  assumes "softmax_f32 row = Inr probs"
  shows "\<exists>m. np_max row = Inr m \<and>
           probs = map (\<lambda>x. div32 (exp32 (sub32 x m))
                               (np_sum (map (\<lambda>x. exp32 (sub32 x m)) row))) row"
  using assms by (auto simp: softmax_f32_def Let_def comp_def split: sum.splits)

lemma softmax_f32_finite_mono:
  assumes fin: "list_all is_finite row" and sm: "softmax_f32 row = Inr probs"
  shows "length probs = length row"
    and "\<And>i j. i < length row \<Longrightarrow> j < length row \<Longrightarrow> row ! i \<le> row ! j \<Longrightarrow> probs ! i \<le> probs ! j"
proof -
  from softmax_f32_Inr [OF sm] obtain m where
    m: "np_max row = Inr m"
    and p: "probs = map (\<lambda>x. div32 (exp32 (sub32 x m))
                                 (np_sum (map (\<lambda>x. exp32 (sub32 x m)) row))) row"
    by blast
  show "length probs = length row" by (simp add: p)
  from np_max_Inr [OF m] have mem: "m \<in> set row" and ub: "\<forall>y \<in> set row. y \<le> m" by blast+
  from fin mem have "is_finite m" by (simp add: list_all_iff)
  then obtain mv where mv: "m = Finite mv" by (cases m) simp_all
  define es where "es = map (\<lambda>x. exp32 (sub32 x m)) row"
  define s where "s = np_sum es"
  have unit: "unit_fp (exp32 (sub32 x m))" if "x \<in> set row" for x
    using that ub fin unfolding mv by (intro exp32_sub32_unit) (simp_all add: list_all_iff)
  then have all_unit: "list_all unit_fp es"
    by (simp add: es_def list_all_iff)
  have "exp32 (sub32 m m) \<in> set es"
    using mem by (auto simp: es_def)
  then have one: "Finite 1 \<in> set es"
    by (simp only: mv exp32_sub32_self)
  have s: "Finite 1 \<le> s \<and> s \<noteq> NaN"
    unfolding s_def np_sum_def
    by (rule foldl_add32_with_one [OF all_unit one]) simp_all
  fix i j
  assume i: "i < length row" and j: "j < length row" and le: "row ! i \<le> row ! j"
  have fi: "is_finite (row ! i)" and fj: "is_finite (row ! j)"
    using fin i j by (simp_all add: list_all_length)
  have "exp32 (sub32 (row ! i) m) \<le> exp32 (sub32 (row ! j) m)"
    unfolding mv using le fi fj by (rule exp32_sub32_mono)
  moreover have "unit_fp (exp32 (sub32 (row ! i) m))" "unit_fp (exp32 (sub32 (row ! j) m))"
    using i j by (simp_all add: unit)
  ultimately have "div32 (exp32 (sub32 (row ! i) m)) s \<le> div32 (exp32 (sub32 (row ! j) m)) s"
    using s by (intro div32_mono) simp_all
  then show "probs ! i \<le> probs ! j"
    using i j by (simp add: p s_def es_def)
qed

text \<open>Evaluation of the two selection steps on explicit rows.\<close>

lemma round32_tiny_numeral:
  "round32 (- (1 / 1073741824)) = Finite (- (1 / 1073741824))"
  using round32_tiny by simp

lemmas f32_eval =
  round32_0 round32_1 round32_2 round32_half round32_m200 round32_tiny_numeral
  round32_exp_near_one round32_exp_underflow less_eq_fp_def less_fp_def

lemmas step_eval =
  main_step_def run_step_def in_dict_def dict_get_def np_array_f32_def rectangular_def
  last_position_def py_getitem_def softmax_f32_def np_max_def np_sum_def np_argmax_def Let_def

text \<open>
  Claim C5, as the spec words it: at each decode step the selected token is the one
  with the maximum score of the last logits row. In tokenid_debug4.py it need not
  be: on the row \<open>[-2^(-30), 0]\<close> both float32 probabilities are 1/2, and the token
  selected is 0, whose logit is below that of token 1.
\<close>

theorem softmax_tie_selects_lower_logit:
  "run_step (\<lambda>arr ids. Inr [(''logits'', [[[Finite (- (1 / 2 ^ 30)), Finite 0]]])]) () [2] = Inr 0 \<and>
   [Finite (- (1 / 2 ^ 30)), Finite 0] ! 0 < [Finite (- (1 / 2 ^ 30)), Finite 0] ! 1"
  by (simp add: step_eval f32_eval)

text \<open>
  Claim C5, amended. In tokenid_debug3.py the selected token is the lowest index of
  the maximum of the last logits row: every entry is at most the selected one, and
  every entry before it is strictly smaller. In tokenid_debug4.py the selected
  token is the lowest index of the largest float32 probability
  \<open>exp(x - max) / sum\<close> computed from the last logits row (converted to float32);
  when the row is finite, every index of the maximum logit has that largest
  probability, and the selected token is at such an index or before it.
\<close>

theorem selected_token_first_max:
  "(main_step predict arr tokens state = Inr (next_id, state') \<longrightarrow>
      (\<exists>out logits row.
         predict [tokens] arr state = Inr out \<and> dict_get out ''logits'' = Inr logits \<and>
         last_position logits = Inr row \<and> row = last (hd logits) \<and>
         0 \<le> next_id \<and> nat next_id < length row \<and>
         (\<forall>j<length row. row ! j \<le> row ! nat next_id) \<and>
         (\<forall>j<nat next_id. row ! j < row ! nat next_id))) \<and>
   (run_step predict' arr' tokens = Inr chosen \<longrightarrow>
      (\<exists>out raw logits row m probs.
         predict' arr' [tokens] = Inr out \<and>
         (if in_dict ''logits'' out then dict_get out ''logits''
          else py_getitem (map snd out) 0) = Inr raw \<and>
         np_array_f32 raw = Inr logits \<and>
         last_position logits = Inr row \<and> row = last (hd logits) \<and>
         np_max row = Inr m \<and>
         probs = map (\<lambda>x. div32 (exp32 (sub32 x m))
                             (np_sum (map (\<lambda>x. exp32 (sub32 x m)) row))) row \<and>
         0 \<le> chosen \<and> nat chosen < length row \<and>
         (\<forall>j<length row. probs ! j \<le> probs ! nat chosen) \<and>
         (\<forall>j<nat chosen. probs ! j < probs ! nat chosen) \<and>
         (list_all is_finite row \<longrightarrow>
            (\<forall>j<length row. (\<forall>i<length row. row ! i \<le> row ! j) \<longrightarrow>
               probs ! j = probs ! nat chosen \<and> nat chosen \<le> j))))"
proof (intro conjI impI)
  assume "main_step predict arr tokens state = Inr (next_id, state')"
  from main_step_Inr [OF this] obtain out logits row i where
    s: "predict [tokens] arr state = Inr out" "dict_get out ''logits'' = Inr logits"
       "last_position logits = Inr row" "np_argmax row = Inr i" "next_id = int i"
    by blast
  from np_argmax_first_max [OF s(4)] last_position_Inr [OF s(3)] s
  show "\<exists>out logits row.
         predict [tokens] arr state = Inr out \<and> dict_get out ''logits'' = Inr logits \<and>
         last_position logits = Inr row \<and> row = last (hd logits) \<and>
         0 \<le> next_id \<and> nat next_id < length row \<and>
         (\<forall>j<length row. row ! j \<le> row ! nat next_id) \<and>
         (\<forall>j<nat next_id. row ! j < row ! nat next_id)"
    by auto
next
  assume "run_step predict' arr' tokens = Inr chosen"
  from run_step_Inr [OF this] obtain out raw logits row probs c where
    s: "predict' arr' [tokens] = Inr out"
       "(if in_dict ''logits'' out then dict_get out ''logits''
         else py_getitem (map snd out) 0) = Inr raw"
       "np_array_f32 raw = Inr logits"
       "last_position logits = Inr row" "softmax_f32 row = Inr probs"
       "np_argmax probs = Inr c" "chosen = int c"
    by blast
  from softmax_f32_Inr [OF s(5)] obtain m where
    m: "np_max row = Inr m"
    and p: "probs = map (\<lambda>x. div32 (exp32 (sub32 x m))
                                 (np_sum (map (\<lambda>x. exp32 (sub32 x m)) row))) row"
    by blast
  from p have len: "length probs = length row" by simp
  from np_argmax_first_max [OF s(6)] len
  have c1: "c < length row" and c2: "\<forall>j<length row. probs ! j \<le> probs ! c"
    and c3: "\<forall>j<c. probs ! j < probs ! c" by simp_all
  have fin: "\<forall>j<length row. (\<forall>i<length row. row ! i \<le> row ! j) \<longrightarrow>
               probs ! j = probs ! c \<and> c \<le> j" if f: "list_all is_finite row"
  proof (intro allI impI)
    fix j assume j: "j < length row" and top: "\<forall>i<length row. row ! i \<le> row ! j"
    from top c1 have "row ! c \<le> row ! j" by simp
    with softmax_f32_finite_mono(2) [OF f s(5) c1 j] have "probs ! c \<le> probs ! j" by simp
    moreover from c2 j have "probs ! j \<le> probs ! c" by simp
    ultimately have eq: "probs ! j = probs ! c" by simp
    have "c \<le> j"
    proof (rule ccontr)
      assume "\<not> c \<le> j"
      then have "j < c" by simp
      with c3 have "probs ! j < probs ! c" by simp
      with eq show False by simp
    qed
    with eq show "probs ! j = probs ! c \<and> c \<le> j" by simp
  qed
  have r: "row = last (hd logits)" using last_position_Inr [OF s(4)] by simp
  show "\<exists>out raw logits row m probs.
         predict' arr' [tokens] = Inr out \<and>
         (if in_dict ''logits'' out then dict_get out ''logits''
          else py_getitem (map snd out) 0) = Inr raw \<and>
         np_array_f32 raw = Inr logits \<and>
         last_position logits = Inr row \<and> row = last (hd logits) \<and>
         np_max row = Inr m \<and>
         probs = map (\<lambda>x. div32 (exp32 (sub32 x m))
                             (np_sum (map (\<lambda>x. exp32 (sub32 x m)) row))) row \<and>
         0 \<le> chosen \<and> nat chosen < length row \<and>
         (\<forall>j<length row. probs ! j \<le> probs ! nat chosen) \<and>
         (\<forall>j<nat chosen. probs ! j < probs ! nat chosen) \<and>
         (list_all is_finite row \<longrightarrow>
            (\<forall>j<length row. (\<forall>i<length row. row ! i \<le> row ! j) \<longrightarrow>
               probs ! j = probs ! nat chosen \<and> nat chosen \<le> j))"
  proof (intro exI conjI)
    show "predict' arr' [tokens] = Inr out" by (rule s(1))
    show "(if in_dict ''logits'' out then dict_get out ''logits''
          else py_getitem (map snd out) 0) = Inr raw" by (rule s(2))
    show "np_array_f32 raw = Inr logits" by (rule s(3))
    show "last_position logits = Inr row" by (rule s(4))
    show "row = last (hd logits)" by (rule r)
    show "np_max row = Inr m" by (rule m)
    show "probs = map (\<lambda>x. div32 (exp32 (sub32 x m))
                             (np_sum (map (\<lambda>x. exp32 (sub32 x m)) row))) row" by (rule p)
    show "0 \<le> chosen" by (simp add: s(7))
    show "nat chosen < length row" using c1 by (simp add: s(7))
    show "\<forall>j<length row. probs ! j \<le> probs ! nat chosen" using c2 by (simp add: s(7))
    show "\<forall>j<nat chosen. probs ! j < probs ! nat chosen" using c3 by (simp add: s(7))
    show "list_all is_finite row \<longrightarrow>
            (\<forall>j<length row. (\<forall>i<length row. row ! i \<le> row ! j) \<longrightarrow>
               probs ! j = probs ! nat chosen \<and> nat chosen \<le> j)"
      using fin by (simp add: s(7))
  qed
qed

theorem selected_token_first_max_witness:
  "main_step (\<lambda>ids arr st. Inr [(''logits'', [[[0, 9, 1, 2], [1, 7, 3, 7::int]]]), (''state'', st)])
     () [2, 5] [[[0]]] = Inr (1, [[[0]]]) \<and>
   run_step (\<lambda>arr ids. Inr [(''var_1'',
       [[[Finite 0, Finite (- 200), Finite 0, Finite (- 200)],
         [Finite (- 200), Finite 0, Finite (- 200), Finite 0]]])])
     () [2, 5] = Inr 1 \<and>
   softmax_f32 [Finite (- 200), Finite 0, Finite (- 200), Finite 0] =
     Inr [Finite 0, Finite (1 / 2), Finite 0, Finite (1 / 2)]"
  using selected_token_first_max
    [of "\<lambda>ids arr st. Inr [(''logits'', [[[0, 9, 1, 2], [1, 7, 3, 7::int]]]), (''state'', st)]"
        "()" "[2, 5]" "[[[0]]]" 1 "[[[0]]]"
        "\<lambda>arr ids. Inr [(''var_1'',
           [[[Finite 0, Finite (- 200), Finite 0, Finite (- 200)],
             [Finite (- 200), Finite 0, Finite (- 200), Finite 0]]])]"
        "()" 1]
  by (simp add: step_eval f32_eval)

text \<open>
  Claim C10, as stated: on the same last row the two scripts select the same token.
  On the row \<open>[-2^(-30), 0]\<close> tokenid_debug3.py selects token 1, the maximum logit,
  and tokenid_debug4.py selects token 0: \<open>exp(-2^(-30))\<close> rounds to 1 in float32, so
  both probabilities are 1/2 and the first of them wins.
\<close>

theorem softmax_selection_differs:
  "main_step
     (\<lambda>ids arr st. Inr [(''logits'', [[[Finite (- (1 / 2 ^ 30)), Finite 0]]]), (''state'', st)])
     () [2] [[[Finite 0]]] = Inr (1, [[[Finite 0]]]) \<and>
   run_step (\<lambda>arr ids. Inr [(''logits'', [[[Finite (- (1 / 2 ^ 30)), Finite 0]]])]) () [2] = Inr 0 \<and>
   softmax_f32 [Finite (- (1 / 2 ^ 30)), Finite 0] = Inr [Finite (1 / 2), Finite (1 / 2)]"
  by (simp add: step_eval f32_eval)

text \<open>
  Claim C10, amended. When both scripts see the same last row of float32 logits
  and the row is finite, the token tokenid_debug4.py selects is the lowest index
  whose float32 probability equals that of the token tokenid_debug3.py selects
  (the first maximum logit): it is never a later index, and it is the same index
  exactly when no earlier entry has that probability.
\<close>

theorem softmax_selection_against_logits:
  assumes "predict [tokens] arr state = Inr out"
    and "dict_get out ''logits'' = Inr logits"
    and "predict' arr' [tokens'] = Inr out'"
    and "(if in_dict ''logits'' out' then dict_get out' ''logits''
          else py_getitem (map snd out') 0) = Inr raw"
    and "np_array_f32 raw = Inr logits"
    and "last_position logits = Inr row"
    and "list_all is_finite row"
    and "softmax_f32 row = Inr probs"
    and "main_step predict arr tokens state = Inr (next_id, state')"
    and "run_step predict' arr' tokens' = Inr chosen"
  shows "0 \<le> chosen \<and> chosen \<le> next_id \<and>
         probs ! nat chosen = probs ! nat next_id \<and>
         (\<forall>i<nat chosen. probs ! i < probs ! nat next_id) \<and>
         ((chosen = next_id) = (\<forall>i<nat next_id. probs ! i \<noteq> probs ! nat next_id))"
proof -
  from main_step_Inr [OF assms(9)] assms(1,2,6) obtain k where
    k: "np_argmax row = Inr k" "next_id = int k"
    by auto
  from run_step_Inr [OF assms(10)] assms(3,4,5,6,8) obtain j where
    j: "np_argmax probs = Inr j" "chosen = int j"
    by auto
  have len: "length probs = length row"
    by (rule softmax_f32_finite_mono(1) [OF assms(7,8)])
  from np_argmax_monotone_image [OF len softmax_f32_finite_mono(2) [OF assms(7,8)] k(1) j(1)]
  have r: "j \<le> k" "probs ! j = probs ! k" "\<forall>i<j. probs ! i < probs ! k"
    by simp_all
  have "(j = k) = (\<forall>i<k. probs ! i \<noteq> probs ! k)"
  proof
    assume "j = k"
    with r(3) show "\<forall>i<k. probs ! i \<noteq> probs ! k" by auto
  next
    assume a: "\<forall>i<k. probs ! i \<noteq> probs ! k"
    show "j = k"
    proof (rule ccontr)
      assume "j \<noteq> k"
      with r(1) have "j < k" by simp
      with a r(2) show False by simp
    qed
  qed
  with r show ?thesis by (simp add: k(2) j(2))
qed

theorem softmax_selection_against_logits_witness:
  "list_all is_finite [Finite (- 200), Finite 0, Finite 0] \<and>
   softmax_f32 [Finite (- 200), Finite 0, Finite 0] = Inr [Finite 0, Finite (1 / 2), Finite (1 / 2)] \<and>
   main_step
     (\<lambda>ids arr st. Inr [(''logits'', [[[Finite (- 200), Finite 0, Finite 0]]]), (''state'', st)])
     () [2] [[[Finite 0]]] = Inr (1, [[[Finite 0]]]) \<and>
   run_step (\<lambda>arr ids. Inr [(''logits'', [[[Finite (- 200), Finite 0, Finite 0]]])]) () [2] = Inr 1"
  using softmax_selection_against_logits
    [of "\<lambda>ids arr st. Inr [(''logits'', [[[Finite (- 200), Finite 0, Finite 0]]]), (''state'', st)]"
        "[2]" "()" "[[[Finite 0]]]"
        "[(''logits'', [[[Finite (- 200), Finite 0, Finite 0]]]), (''state'', [[[Finite 0]]])]"
        "[[[Finite (- 200), Finite 0, Finite 0]]]"
        "\<lambda>arr ids. Inr [(''logits'', [[[Finite (- 200), Finite 0, Finite 0]]])]"
        "()" "[2]"
        "[(''logits'', [[[Finite (- 200), Finite 0, Finite 0]]])]"
        "[[[Finite (- 200), Finite 0, Finite 0]]]"
        "[Finite (- 200), Finite 0, Finite 0]"
        "[Finite 0, Finite (1 / 2), Finite (1 / 2)]"
        1 "[[[Finite 0]]]" 1]
  by (simp add: step_eval f32_eval)

section \<open>Properties of the decode loop\<close>

lemma tokens_history_hd:
  "tokens_history body eos n tokens st \<noteq> [] \<and> hd (tokens_history body eos n tokens st) = tokens"
  by (cases n) simp_all

lemma tokens_history_length:
  "length (tokens_history body eos n tokens st) \<le> Suc n"
  by (induction n arbitrary: tokens st) (auto split: sum.splits)

lemma tokens_history_nth:
  "i < length (tokens_history body eos n tokens st) \<Longrightarrow>
   \<exists>app. tokens_history body eos n tokens st ! i = tokens @ app \<and> length app = i"
proof (induction n arbitrary: tokens st i)
  case 0
  then show ?case by simp
next
  case (Suc n)
  show ?case
  proof (cases i)
    case 0
    then show ?thesis by simp
  next
    case (Suc k)
    show ?thesis
    proof (cases "body tokens st")
      case (Inl e)
      with Suc.prems Suc show ?thesis by simp
    next
      case (Inr p)
      obtain c st' where p: "p = (c, st')" by (cases p)
      show ?thesis
      proof (cases "c = eos")
        case True
        with Suc.prems Suc Inr p show ?thesis by simp
      next
        case False
        with Suc.prems Suc Inr p
        have "k < length (tokens_history body eos n (tokens @ [c]) st')" by simp
        from Suc.IH [OF this] obtain app where
          "tokens_history body eos n (tokens @ [c]) st' ! k = (tokens @ [c]) @ app" "length app = k"
          by blast
        with False Suc Inr p show ?thesis by simp
      qed
    qed
  qed
qed

lemma tokens_history_step:
  "Suc i < length (tokens_history body eos n tokens st) \<Longrightarrow>
   \<exists>c. tokens_history body eos n tokens st ! Suc i = tokens_history body eos n tokens st ! i @ [c]"
proof (induction n arbitrary: tokens st i)
  case 0
  then show ?case by simp
next
  case (Suc n)
  show ?case
  proof (cases "body tokens st")
    case (Inl e)
    with Suc.prems show ?thesis by simp
  next
    case (Inr p)
    obtain c st' where p: "p = (c, st')" by (cases p)
    show ?thesis
    proof (cases "c = eos")
      case True
      with Suc.prems Inr p show ?thesis by (cases i) simp_all
    next
      case False
      let ?rest = "tokens_history body eos n (tokens @ [c]) st'"
      from False Inr p have h: "tokens_history body eos (Suc n) tokens st = tokens # ?rest"
        by simp
      show ?thesis
      proof (cases i)
        case 0
        have "?rest ! 0 = tokens @ [c]"
          using tokens_history_hd [of body eos n "tokens @ [c]" st']
          by (cases "tokens_history body eos n (tokens @ [c]) st'") simp_all
        with h 0 show ?thesis by simp
      next
        case (Suc k)
        with Suc.prems h have "Suc k < length ?rest" by simp
        from Suc.IH [OF this] h Suc show ?thesis by simp
      qed
    qed
  qed
qed

lemma greedy_loop_last_history:
  "greedy_loop body eos n tokens st = Inr (how, ts) \<Longrightarrow>
   ts = last (tokens_history body eos n tokens st) \<and>
   (how = Break \<longrightarrow> ts \<noteq> tokens \<and> last ts = eos) \<and>
   (how = Exhausted \<longrightarrow> length ts = length tokens + n)"
proof (induction n arbitrary: tokens st)
  case 0
  then show ?case by simp
next
  case (Suc n)
  show ?case
  proof (cases "body tokens st")
    case (Inl e)
    with Suc.prems show ?thesis by simp
  next
    case (Inr p)
    obtain c st' where p: "p = (c, st')" by (cases p)
    show ?thesis
    proof (cases "c = eos")
      case True
      with Suc.prems Inr p show ?thesis by auto
    next
      case False
      with Suc.prems Inr p have "greedy_loop body eos n (tokens @ [c]) st' = Inr (how, ts)"
        by simp
      from Suc.IH [OF this] False Inr p
        tokens_history_hd [of body eos n "tokens @ [c]" st']
        tokens_history_nth [of "length (tokens_history body eos n (tokens @ [c]) st') - 1" body eos n "tokens @ [c]" st']
      show ?thesis by (auto simp: last_conv_nth)
    qed
  qed
qed

lemma greedy_loop_never_eos:
  assumes "\<forall>tokens st. \<exists>c st'. body tokens st = Inr (c, st') \<and> c \<noteq> eos"
  shows "\<exists>ts. greedy_loop body eos n tokens st = Inr (Exhausted, ts) \<and>
              length ts = length tokens + n \<and>
              length (tokens_history body eos n tokens st) = Suc n"
proof (induction n arbitrary: tokens st)
  case 0
  show ?case by simp
next
  case (Suc n)
  from assms obtain c st' where b: "body tokens st = Inr (c, st')" "c \<noteq> eos" by blast
  from Suc.IH [of "tokens @ [c]" st'] b show ?case by auto
qed

lemma history_invariant:
  "hd (tokens_history body eos n [bos] st) = [bos] \<and>
   length (tokens_history body eos n [bos] st) \<le> Suc n \<and>
   (\<forall>i<length (tokens_history body eos n [bos] st).
      length (tokens_history body eos n [bos] st ! i) = Suc i \<and>
      hd (tokens_history body eos n [bos] st ! i) = bos) \<and>
   (\<forall>i. Suc i < length (tokens_history body eos n [bos] st) \<longrightarrow>
      (\<exists>c. tokens_history body eos n [bos] st ! Suc i =
            tokens_history body eos n [bos] st ! i @ [c])) \<and>
   (\<forall>how ts. greedy_loop body eos n [bos] st = Inr (how, ts) \<longrightarrow>
      ts = last (tokens_history body eos n [bos] st) \<and> hd ts = bos \<and>
      length ts \<le> Suc n \<and> (how = Break \<longrightarrow> last ts = eos))"
proof -
  let ?h = "tokens_history body eos n [bos] st"
  have ne: "?h \<noteq> []" and h0: "hd ?h = [bos]"
    using tokens_history_hd [of body eos n "[bos]" st] by simp_all
  have len: "length ?h \<le> Suc n"
    by (rule tokens_history_length)
  have nth: "length (?h ! i) = Suc i \<and> hd (?h ! i) = bos" if "i < length ?h" for i
    using tokens_history_nth [OF that] by auto
  have stp: "\<exists>c. ?h ! Suc i = ?h ! i @ [c]" if "Suc i < length ?h" for i
    using tokens_history_step [OF that] .
  have res: "ts = last ?h \<and> hd ts = bos \<and> length ts \<le> Suc n \<and> (how = Break \<longrightarrow> last ts = eos)"
    if r: "greedy_loop body eos n [bos] st = Inr (how, ts)" for how ts
  proof -
    from greedy_loop_last_history [OF r]
    have l: "ts = last ?h" and b: "how = Break \<longrightarrow> last ts = eos" by blast+
    from ne have "last ?h = ?h ! (length ?h - 1)" by (rule last_conv_nth)
    moreover from ne have "length ?h - 1 < length ?h" by simp
    ultimately have "length (last ?h) = Suc (length ?h - 1) \<and> hd (last ?h) = bos"
      using nth [of "length ?h - 1"] by simp
    with l b len ne show ?thesis by auto
  qed
  from h0 len nth stp res show ?thesis by blast
qed

text \<open>
  Claim C1: in both scripts the variable \<^verbatim>\<open>tokens\<close> starts as \<open>[2]\<close>; each iteration
  appends exactly one token to it, so that its value after \<open>i\<close> iterations has
  length \<open>i + 1\<close> and still begins with 2; there are at most 33 values, none longer
  than 33; and when the loop returns, what it returns is the last of these values,
  which ends with 3 when the loop was left by \<^verbatim>\<open>break\<close>.
\<close>

theorem token_sequence_invariant:
  "(hd (main_history predict arr) = [2] \<and>
    length (main_history predict arr) \<le> 33 \<and>
    (\<forall>i<length (main_history predict arr).
       length (main_history predict arr ! i) = Suc i \<and> hd (main_history predict arr ! i) = 2) \<and>
    (\<forall>i. Suc i < length (main_history predict arr) \<longrightarrow>
       (\<exists>c. main_history predict arr ! Suc i = main_history predict arr ! i @ [c])) \<and>
    (\<forall>how ts. main_decode predict arr = Inr (how, ts) \<longrightarrow>
       ts = last (main_history predict arr) \<and> hd ts = 2 \<and>
       length ts \<le> 33 \<and> (how = Break \<longrightarrow> last ts = 3))) \<and>
   (hd (run_history predict' arr') = [2] \<and>
    length (run_history predict' arr') \<le> 33 \<and>
    (\<forall>i<length (run_history predict' arr').
       length (run_history predict' arr' ! i) = Suc i \<and>
       hd (run_history predict' arr' ! i) = 2) \<and>
    (\<forall>i. Suc i < length (run_history predict' arr') \<longrightarrow>
       (\<exists>c. run_history predict' arr' ! Suc i =
             run_history predict' arr' ! i @ [c])) \<and>
    (\<forall>how ts. run_decode predict' arr' = Inr (how, ts) \<longrightarrow>
       ts = last (run_history predict' arr') \<and> hd ts = 2 \<and>
       length ts \<le> 33 \<and> (how = Break \<longrightarrow> last ts = 3)))"
proof (rule conjI)
  show "hd (main_history predict arr) = [2] \<and>
    length (main_history predict arr) \<le> 33 \<and>
    (\<forall>i<length (main_history predict arr).
       length (main_history predict arr ! i) = Suc i \<and> hd (main_history predict arr ! i) = 2) \<and>
    (\<forall>i. Suc i < length (main_history predict arr) \<longrightarrow>
       (\<exists>c. main_history predict arr ! Suc i = main_history predict arr ! i @ [c])) \<and>
    (\<forall>how ts. main_decode predict arr = Inr (how, ts) \<longrightarrow>
       ts = last (main_history predict arr) \<and> hd ts = 2 \<and>
       length ts \<le> 33 \<and> (how = Break \<longrightarrow> last ts = 3))"
    using history_invariant [of "main_step predict arr" 3 32 2 zeros_state]
    unfolding main_history_def main_decode_def by simp
  show "hd (run_history predict' arr') = [2] \<and>
    length (run_history predict' arr') \<le> 33 \<and>
    (\<forall>i<length (run_history predict' arr').
       length (run_history predict' arr' ! i) = Suc i \<and>
       hd (run_history predict' arr' ! i) = 2) \<and>
    (\<forall>i. Suc i < length (run_history predict' arr') \<longrightarrow>
       (\<exists>c. run_history predict' arr' ! Suc i =
             run_history predict' arr' ! i @ [c])) \<and>
    (\<forall>how ts. run_decode predict' arr' = Inr (how, ts) \<longrightarrow>
       ts = last (run_history predict' arr') \<and> hd ts = 2 \<and>
       length ts \<le> 33 \<and> (how = Break \<longrightarrow> last ts = 3))"
    using history_invariant [of "run_body predict' arr'" EOS_ID MAX_LEN BOS_ID "()"]
    unfolding run_history_def run_decode_def by (simp add: EOS_ID_def MAX_LEN_def BOS_ID_def)
qed

theorem token_sequence_invariant_witness:
  "main_history
     (\<lambda>ids arr st. Inr [(''logits'', [[if ids = [[2]] then [0, 0, 0, 0, 0, 1] else [0, 0, 0, 1::int]]]),
                         (''state'', st)]) () = [[2], [2, 5], [2, 5, 3]] \<and>
   main_decode
     (\<lambda>ids arr st. Inr [(''logits'', [[if ids = [[2]] then [0, 0, 0, 0, 0, 1] else [0, 0, 0, 1::int]]]),
                         (''state'', st)]) () = Inr (Break, [2, 5, 3]) \<and>
   run_history
     (\<lambda>arr ids. Inr [(''logits'',
        [[if ids = [[2]]
          then [Finite (- 200), Finite (- 200), Finite (- 200), Finite (- 200), Finite (- 200), Finite 0]
          else [Finite (- 200), Finite (- 200), Finite (- 200), Finite 0]]])])
     () = [[2], [2, 5], [2, 5, 3]] \<and>
   run_decode
     (\<lambda>arr ids. Inr [(''logits'',
        [[if ids = [[2]]
          then [Finite (- 200), Finite (- 200), Finite (- 200), Finite (- 200), Finite (- 200), Finite 0]
          else [Finite (- 200), Finite (- 200), Finite (- 200), Finite 0]]])])
     () = Inr (Break, [2, 5, 3])"
proof -
  have e1: "main_history
     (\<lambda>ids arr st. Inr [(''logits'', [[if ids = [[2]] then [0, 0, 0, 0, 0, 1] else [0, 0, 0, 1::int]]]),
                         (''state'', st)]) () = [[2], [2, 5], [2, 5, 3]]"
    by code_simp
  have e2: "main_decode
     (\<lambda>ids arr st. Inr [(''logits'', [[if ids = [[2]] then [0, 0, 0, 0, 0, 1] else [0, 0, 0, 1::int]]]),
                         (''state'', st)]) () = Inr (Break, [2, 5, 3])"
    by code_simp
  let ?p = "\<lambda>(arr::unit) (ids::int list list). (Inr [(''logits'',
        [[if ids = [[2]]
          then [Finite (- 200), Finite (- 200), Finite (- 200), Finite (- 200), Finite (- 200), Finite 0]
          else [Finite (- 200), Finite (- 200), Finite (- 200), Finite 0]]])]
        :: error + (string \<times> fp tensor3) list)"
  have b1: "run_body ?p () [2] u = Inr (5, ())" for u
    by (simp add: run_body_def step_eval f32_eval)
  have b2: "run_body ?p () [2, 5] u = Inr (3, ())" for u
    by (simp add: run_body_def step_eval f32_eval)
  have e3: "run_history ?p () = [[2], [2, 5], [2, 5, 3]]"
    by (simp add: run_history_def MAX_LEN_def EOS_ID_def BOS_ID_def eval_nat_numeral b1 b2)
  have e4: "run_decode ?p () = Inr (Break, [2, 5, 3])"
    by (simp add: run_decode_def MAX_LEN_def EOS_ID_def BOS_ID_def eval_nat_numeral b1 b2)
  from e1 e2 e3 e4 token_sequence_invariant
    [of "\<lambda>ids arr st. Inr [(''logits'', [[if ids = [[2]] then [0, 0, 0, 0, 0, 1] else [0, 0, 0, 1::int]]]),
                         (''state'', st)]" "()" ?p "()"]
  show ?thesis by simp
qed











section \<open>Missing input files\<close>

text \<open>
  Claim C8, as the spec words it: in every invocation with a required input file
  missing, the script prints a message and exits with a non-zero status before the
  decode loop. tokenid_debug3.py checks no file: started with a vocabulary file
  that does not exist, it prints nothing and calls no \<^verbatim>\<open>sys.exit\<close>; the
  \<open>FileNotFoundError\<close> of \<^verbatim>\<open>open\<close> in \<^verbatim>\<open>load_vocab\<close> leaves the script uncaught.
\<close>

theorem missing_vocab_not_reported:
  "tokenid_debug3_main (example_env [])
     [''tokenid_debug3.py'', ''page.png'', ''manga_ocr.mlpackage''] =
     ([], Uncaught FileNotFoundError)"
  by (simp add: tokenid_debug3_main_def argv_or_def load_vocab_def example_env_def)

text \<open>
  Claim C8, amended. tokenid_debug4.py, given an image argument: when the model
  path does not exist it prints \<^verbatim>\<open>Model file not found: <path>\<close>, and when the model
  path exists and the vocabulary path does not it prints
  \<^verbatim>\<open>Vocab file not found: <path>\<close>; in both cases it exits with status 1 and
  nothing is loaded or decoded. tokenid_debug3.py, given its two arguments, checks
  nothing: a missing vocabulary file ends it with the uncaught \<open>FileNotFoundError\<close>
  of \<^verbatim>\<open>load_vocab\<close>, and an exception of the model loader or of
  \<^verbatim>\<open>crop_and_preprocess\<close> ends it uncaught as well, each time with nothing
  printed and before the decode loop.
\<close>

theorem missing_file_handling:
  "(2 \<le> length argv1 \<and> \<not> path_exists env1 (argv_or argv1 2 ''manga_ocr.mlpackage'') \<longrightarrow>
      tokenid_debug4_main env1 argv1 =
        ([''Model file not found: '' @ argv_or argv1 2 ''manga_ocr.mlpackage''], SysExit 1)) \<and>
   (2 \<le> length argv2 \<and> path_exists env2 (argv_or argv2 2 ''manga_ocr.mlpackage'') \<and>
    \<not> path_exists env2 (argv_or argv2 3 ''vocab.txt'') \<longrightarrow>
      tokenid_debug4_main env2 argv2 =
        ([''Vocab file not found: '' @ argv_or argv2 3 ''vocab.txt''], SysExit 1)) \<and>
   (3 \<le> length argv3 \<and> \<not> path_exists env3 (argv_or argv3 3 ''vocab.txt'') \<longrightarrow>
      tokenid_debug3_main env3 argv3 = ([], Uncaught FileNotFoundError)) \<and>
   (3 \<le> length argv4 \<and> load_vocab env4 (argv_or argv4 3 ''vocab.txt'') = Inr vocab4 \<and>
    MLModel env4 (argv4 ! 2) = Inl e4 \<longrightarrow>
      tokenid_debug3_main env4 argv4 = ([], Uncaught e4)) \<and>
   (3 \<le> length argv5 \<and> load_vocab env5 (argv_or argv5 3 ''vocab.txt'') = Inr vocab5 \<and>
    MLModel env5 (argv5 ! 2) = Inr m5 \<and> crop_and_preprocess env5 (argv5 ! 1) = Inl e5 \<longrightarrow>
      tokenid_debug3_main env5 argv5 = ([], Uncaught e5))"
  by (simp add: tokenid_debug4_main_def tokenid_debug3_main_def load_vocab_def Let_def)

theorem missing_file_handling_witness:
  "\<not> path_exists (example_env []) ''manga_ocr.mlpackage'' \<and>
   tokenid_debug4_main (example_env []) [''tokenid_debug4.py'', ''page.png''] =
     ([''Model file not found: manga_ocr.mlpackage''], SysExit 1) \<and>
   \<not> path_exists (example_env [''manga_ocr.mlpackage'']) ''vocab.txt'' \<and>
   tokenid_debug4_main (example_env [''manga_ocr.mlpackage'']) [''tokenid_debug4.py'', ''page.png''] =
     ([''Vocab file not found: vocab.txt''], SysExit 1) \<and>
   tokenid_debug3_main (example_env [''page.png'', ''m.mlpackage''])
     [''tokenid_debug3.py'', ''page.png'', ''m.mlpackage''] = ([], Uncaught FileNotFoundError) \<and>
   MLModel (example_env [''page.png'', ''vocab.txt'']) ''m.mlpackage'' = Inl FileNotFoundError \<and>
   tokenid_debug3_main (example_env [''page.png'', ''vocab.txt''])
     [''tokenid_debug3.py'', ''page.png'', ''m.mlpackage''] = ([], Uncaught FileNotFoundError) \<and>
   crop_and_preprocess (example_env [''m.mlpackage'', ''vocab.txt'']) ''page.png'' =
     Inl FileNotFoundError \<and>
   tokenid_debug3_main (example_env [''m.mlpackage'', ''vocab.txt''])
     [''tokenid_debug3.py'', ''page.png'', ''m.mlpackage''] = ([], Uncaught FileNotFoundError)"
  using missing_file_handling
    [of "[''tokenid_debug4.py'', ''page.png'']" "example_env []"
        "[''tokenid_debug4.py'', ''page.png'']" "example_env [''manga_ocr.mlpackage'']"
        "[''tokenid_debug3.py'', ''page.png'', ''m.mlpackage'']"
        "example_env [''page.png'', ''m.mlpackage'']"
        "[''tokenid_debug3.py'', ''page.png'', ''m.mlpackage'']"
        "example_env [''page.png'', ''vocab.txt'']"
        "[''[PAD]'', ''[UNK]'', ''[CLS]'', ''[SEP]'', ''a'', ''b'']" FileNotFoundError
        "[''tokenid_debug3.py'', ''page.png'', ''m.mlpackage'']"
        "example_env [''m.mlpackage'', ''vocab.txt'']"
        "[''[PAD]'', ''[UNK]'', ''[CLS]'', ''[SEP]'', ''a'', ''b'']" "()" FileNotFoundError]
  by (simp add: example_env_def argv_or_def load_vocab_def)


end
